theory Spec2Isabelle
  imports Main "HOL-Library.Signed_Division" "HOL-Library.Word"
begin

section \<open>Data model of the HTTP/3 client (http3/client.go)\<close>

text \<open>
  \<open>quic.StreamID\<close> is an \<open>int64\<close>. The client only compares stream ids and takes
  their remainder by 4, so no operation on them can overflow; they are modelled as
  \<open>int\<close>, with Go's truncating remainder \<open>%\<close> as \<open>smod\<close>.
\<close>

type_synonym StreamID = int

text \<open>
  The HTTP/3 error codes the client sends. Their numeric values live in a file of the
  package that the client only refers to by name; all of them are non-zero, which is what
  the client's tests \<open>streamErr != 0\<close> and \<open>connErr != 0\<close> rely on.
\<close>

datatype ErrCode =
    ErrCodeNoError
  | ErrCodeGeneralProtocolError
  | ErrCodeInternalError
  | ErrCodeFrameUnexpected
  | ErrCodeFrameError
  | ErrCodeIDError
  | ErrCodeRequestCanceled
  | ErrCodeRequestIncomplete
  | ErrCodeMessageError

text \<open>
  Errors of the io layer and of the collaborators (transport, frame parser, header codec)
  are opaque to the client: \<open>EOF\<close> is \<open>io.EOF\<close>, \<open>ErrShortWrite\<close> is
  \<open>io.ErrShortWrite\<close>, \<open>IOErr\<close> any other one.
\<close>

datatype io_err = EOF | ErrShortWrite | IOErr string

datatype error =
    errGoaway
  | ContextCanceled
  | ContextDeadlineExceeded
  | ErrWrongClient
  | ErrExpectedHeaders
  | ErrHeadersTooLarge nat nat
  | ErrContentLength int int
  | External io_err

text \<open>
  The frames \<open>parseNextFrame\<close> returns: the client looks at the \<open>ID\<close> of a
  \<open>goawayFrame\<close> and at the \<open>Length\<close> of a \<open>headersFrame\<close>, every other
  frame type is treated alike.
\<close>

datatype frame = goawayFrame StreamID | headersFrame nat | otherFrame

text \<open>
  What the client does to its collaborators, in program order. \<open>Cancel h cause\<close> is a
  call of the \<open>context.CancelCauseFunc\<close> number \<open>h\<close> (\<open>None\<close> is \<open>cancel(nil)\<close>);
  \<open>GoawayAccepted\<close> marks that a GOAWAY frame passed validation (line 186 reached).
\<close>

type_synonym bytes = "8 word list"

datatype event =
    ConnCloseWithError ErrCode "error option"
  | GoawayAccepted StreamID
  | Cancel nat "error option"
  | Dial
  | WaitHandshake
  | WaitSettings
  | OpenStreamSync
  | StrWrite bytes
  | StrCancelWrite ErrCode
  | StrClose
  | BodyClose
  | WriteRequestHeader nat bool
  | SendRequestBody nat int
  | ParseNextFrame
  | ReadHeaderBlock nat

text \<open>
  \<open>http.Header\<close> is a Go map from a header name to its list of values; the association
  list stands for the map its \<open>map_of\<close> is. \<open>Header.Get\<close> returns the first value
  under the canonical form of the key, or the empty string when there is none. Every key
  the client asks for is already in canonical form, so the lookup is by the key itself.
\<close>

type_synonym header = "(string \<times> string list) list"

definition headerGet :: "header \<Rightarrow> string \<Rightarrow> string" where
  "headerGet h key = (case map_of h key of Some (v # _) \<Rightarrow> v | _ \<Rightarrow> [])"

definition headerDel :: "header \<Rightarrow> string \<Rightarrow> header" where
  "headerDel h key = filter (\<lambda>(k, _). k \<noteq> key) h"

text \<open>
  The fields of \<open>http.Request\<close> the client reads: \<open>reqBody\<close> says whether
  \<open>req.Body\<close> is non-nil. A request is passed by pointer; the pointers are indices
  into the list \<open>reqs\<close> of the request objects that exist, and an index beyond the
  list is the nil pointer.
\<close>

record request =
  Method :: string
  reqHeader :: header
  reqBody :: bool
  reqContentLength :: int

text \<open>
  The body of a response: the stream, length-limited or not, wrapped by
  \<open>newResponseBody\<close> and, after transparent decompression, by \<open>newGzipReader\<close>.
\<close>

datatype httpStream = Unlimited | LengthLimited int

datatype body = ResponseBody httpStream | GzipReader body

record response =
  StatusCode :: int
  Header :: header
  ContentLength :: int
  Uncompressed :: bool
  Body :: "body option"
  Request :: "nat option"
  TLS :: bool

record roundTripperOpts =
  DisableCompression :: bool
  MaxHeaderBytes :: int

type_synonym Settings = "(nat \<times> nat) list"

record RoundTripOpts =
  CheckSettings :: "(Settings \<Rightarrow> error option) option"
  DontCloseRequestStream :: bool

text \<open>
  \<open>requestError\<close>: an error (the field \<open>err\<close> of the source is \<open>rErr\<close>) with at
  most one stream-level and one connection-level code; the zero code of the source is
  \<open>None\<close>.
\<close>

record requestError =
  rErr :: "error option"
  streamErr :: "ErrCode option"
  connErr :: "ErrCode option"

definition noError :: requestError where
  "noError = \<lparr>rErr = None, streamErr = None, connErr = None\<rparr>"

definition newStreamError :: "ErrCode \<Rightarrow> error \<Rightarrow> requestError" where
  "newStreamError code e = \<lparr>rErr = Some e, streamErr = Some code, connErr = None\<rparr>"

definition newConnError :: "ErrCode \<Rightarrow> error \<Rightarrow> requestError" where
  "newConnError code e = \<lparr>rErr = Some e, streamErr = None, connErr = Some code\<rparr>"

text \<open>
  The client, with the request objects and the trace of its effects. \<open>runningCtx\<close> is a
  Go map; it is an association list here, in the order one \<open>range\<close> over it visits the
  entries (Go leaves that order open, and every theorem below holds for each order).
\<close>

record world =
  handshakeErr :: "error option"
  dialOnce :: bool
  receivedGoaway :: bool
  runningCtx :: "(StreamID \<times> nat) list"
  nextCtx :: nat
  reqs :: "request list"
  trace :: "event list"

definition emit :: "event list \<Rightarrow> world \<Rightarrow> world" where
  "emit evs w = w\<lparr>trace := trace w @ evs\<rparr>"

definition newEvents :: "world \<Rightarrow> world \<Rightarrow> event list" where
  "newEvents w w' = drop (length (trace w)) (trace w')"

section \<open>The control stream (client.readControlStream)\<close>

text \<open>Lines 188 to 192: cancel every running request whose stream id is at least \<open>g\<close>.\<close>

fun cancelRunning :: "StreamID \<Rightarrow> (StreamID \<times> nat) list \<Rightarrow> event list" where
  "cancelRunning g [] = []"
| "cancelRunning g ((i, cancel) # rest) =
     (if i \<ge> g then [Cancel cancel (Some errGoaway)] else []) @ cancelRunning g rest"

text \<open>Line 182, the test that rejects a GOAWAY frame.\<close>

definition invalidGoaway :: "world \<Rightarrow> StreamID \<Rightarrow> StreamID \<Rightarrow> bool" where
  "invalidGoaway w lastID ID \<longleftrightarrow>
     ID < 0 \<or> ID smod 4 \<noteq> 0 \<or> (receivedGoaway w \<and> ID > lastID)"

text \<open>
  One iteration of the loop, given what \<open>parseNextFrame\<close> returned: the loop either
  returns or goes on to read the next frame.
\<close>

datatype ctl = Returned world | Running world

fun world_of :: "ctl \<Rightarrow> world" where
  "world_of (Returned w) = w"
| "world_of (Running w) = w"

fun controlStep :: "StreamID \<Rightarrow> world \<Rightarrow> error + frame \<Rightarrow> ctl" where
  "controlStep lastID w (Inl err) = Returned w"
| "controlStep lastID w (Inr (goawayFrame ID)) =
     (if invalidGoaway w lastID ID
      then Returned (emit [ConnCloseWithError ErrCodeIDError None] w)
      else Running (emit (GoawayAccepted ID # cancelRunning ID (runningCtx w))
                      (w\<lparr>receivedGoaway := True\<rparr>)))"
| "controlStep lastID w (Inr _) = Running w"

text \<open>
  The loop over the results of the successive \<open>parseNextFrame\<close> calls. The list is what
  the stream has delivered so far: at its end the loop is still running, blocked in the
  next read. The variable \<open>lastID\<close> is passed on unchanged, because the source never
  assigns it after its declaration.
\<close>

fun controlLoop :: "StreamID \<Rightarrow> world \<Rightarrow> (error + frame) list \<Rightarrow> ctl" where
  "controlLoop lastID w [] = Running w"
| "controlLoop lastID w (x # xs) =
     (case controlStep lastID w x of
        Returned w' \<Rightarrow> Returned w'
      | Running w' \<Rightarrow> controlLoop lastID w' xs)"

definition readControlStream :: "world \<Rightarrow> (error + frame) list \<Rightarrow> ctl" where
  "readControlStream w frames = controlLoop 0 w frames"

fun goawayIDs :: "event list \<Rightarrow> StreamID list" where
  "goawayIDs [] = []"
| "goawayIDs (GoawayAccepted g # evs) = g # goawayIDs evs"
| "goawayIDs (_ # evs) = goawayIDs evs"

text \<open>
  The GOAWAY rule of the specification: the id is non-negative, a multiple of 4 and, after
  an accepted GOAWAY with id \<open>prev\<close>, not greater than \<open>prev\<close>.
\<close>

definition violatesFence :: "StreamID list \<Rightarrow> StreamID \<Rightarrow> bool" where
  "violatesFence ids g \<longleftrightarrow> g < 0 \<or> \<not> 4 dvd g \<or> (ids \<noteq> [] \<and> g > last ids)"

section \<open>Sending the request body (client.sendRequestBody)\<close>

text \<open>
  The body is an \<open>io.Reader\<close> that delivers the chunks \<open>cs\<close> one \<open>Read\<close> after the
  other and then returns \<open>fin\<close> (\<open>io.EOF\<close> or an error) with no bytes. A \<open>Read\<close>
  into a buffer of \<open>k\<close> bytes that is shorter than the next chunk takes the first
  \<open>k\<close> bytes of it.
\<close>

fun bodyRead :: "io_err \<Rightarrow> nat \<Rightarrow> bytes list \<Rightarrow> (bytes \<times> io_err option) \<times> bytes list" where
  "bodyRead fin k [] = (([], Some fin), [])"
| "bodyRead fin k (c # cs) =
     (if length c \<le> k then ((c, None), cs) else ((take k c, None), drop k c # cs))"

text \<open>\<open>cancelingReader.Read\<close>, lines 395 to 401.\<close>

definition cancelingRead ::
  "io_err \<Rightarrow> nat \<Rightarrow> bytes list \<Rightarrow> (bytes \<times> io_err option) \<times> bytes list \<times> event list" where
  "cancelingRead fin k cs =
     (let (r, cs') = bodyRead fin k cs
      in (r, cs', if snd r \<noteq> None \<and> snd r \<noteq> Some EOF
                  then [StrCancelWrite ErrCodeRequestCanceled] else []))"

text \<open>
  \<open>io.LimitedReader.Read\<close> over the canceling reader when the limit is \<open>Some N\<close>, the
  canceling reader itself when it is \<open>None\<close>.
\<close>

definition limitedRead ::
  "io_err \<Rightarrow> int option \<Rightarrow> nat \<Rightarrow> bytes list \<Rightarrow>
     (bytes \<times> io_err option) \<times> int option \<times> bytes list \<times> event list" where
  "limitedRead fin lim k cs =
     (case lim of
        None \<Rightarrow> (let (r, cs', evs) = cancelingRead fin k cs in (r, None, cs', evs))
      | Some N \<Rightarrow>
          if N \<le> 0 then (([], Some EOF), Some N, cs, [])
          else (let (r, cs', evs) = cancelingRead fin (if int k > N then nat N else k) cs
                in (r, Some (N - int (length (fst r))), cs', evs)))"

text \<open>
  A \<open>Write\<close> on the request stream: the stream answers the successive calls as the list
  says (\<open>WErr n e\<close>: \<open>n\<close> bytes at most are taken, then the error \<open>e\<close>), and accepts
  everything once the list is used up.
\<close>

datatype wres = WOk | WErr nat io_err

fun strWrite :: "bytes \<Rightarrow> wres list \<Rightarrow> (nat \<times> io_err option) \<times> wres list \<times> event list" where
  "strWrite p [] = ((length p, None), [], [StrWrite p])"
| "strWrite p (WOk # ws) = ((length p, None), ws, [StrWrite p])"
| "strWrite p (WErr n e # ws) = ((min n (length p), Some e), ws, [StrWrite (take n p)])"

definition chunkSize :: "bytes list \<Rightarrow> nat" where
  "chunkSize cs = sum_list (map (\<lambda>c. Suc (length c)) cs)"

lemma bodyRead_None_smaller:
  "bodyRead fin k cs = ((bs, None), cs') \<Longrightarrow> 0 < k \<Longrightarrow> chunkSize cs' < chunkSize cs"
  by (cases cs) (auto simp: chunkSize_def split: if_splits)

lemma limitedRead_None_smaller:
  assumes "limitedRead fin lim k cs = ((bs, None), lim', cs', evs)" "0 < k"
  shows "chunkSize cs' < chunkSize cs"
proof (cases lim)
  case None
  with assms show ?thesis
    by (auto simp: limitedRead_def cancelingRead_def split: prod.splits dest: bodyRead_None_smaller)
next
  case (Some N)
  with assms show ?thesis
    by (auto simp: limitedRead_def cancelingRead_def split: prod.splits if_splits
        dest!: bodyRead_None_smaller)
qed

text \<open>
  The loop of \<open>io.CopyBuffer\<close> from the (limited) canceling reader to the request
  stream, with a buffer of \<open>k\<close> bytes: it returns the number of bytes written and the
  error, with what is left of the body and the events. Neither side has the optional
  \<open>WriterTo\<close> or \<open>ReaderFrom\<close> fast path. On an empty buffer \<open>io.CopyBuffer\<close>
  panics; the panic is the error of the first branch.
\<close>

function copyBuffer ::
  "io_err \<Rightarrow> nat \<Rightarrow> int option \<Rightarrow> bytes list \<Rightarrow> wres list \<Rightarrow> int \<Rightarrow>
     int \<times> io_err option \<times> bytes list \<times> event list" where
  "copyBuffer fin k lim cs ws written =
     (if k = 0 then (written, Some (IOErr ''empty buffer in CopyBuffer''), cs, [])
      else
        (case limitedRead fin lim k cs of
           ((bs, er), lim', cs', evr) \<Rightarrow>
             (case (if bs = [] then ((0, None), ws, []) else strWrite bs ws) of
                ((nw, ew), ws', evw) \<Rightarrow>
                  (if ew \<noteq> None then (written + int nw, ew, cs', evr @ evw)
                   else if nw \<noteq> length bs
                     then (written + int nw, Some ErrShortWrite, cs', evr @ evw)
                   else
                     (case er of
                        Some e \<Rightarrow>
                          (written + int nw, if e = EOF then None else Some e, cs', evr @ evw)
                      | None \<Rightarrow>
                          (case copyBuffer fin k lim' cs' ws' (written + int nw) of
                             (n, err, cs'', evs) \<Rightarrow> (n, err, cs'', evr @ evw @ evs)))))))"
  by pat_completeness auto
termination
  apply (relation "measure (\<lambda>(fin, k, lim, cs, ws, written). chunkSize cs)")
   apply simp
  apply (auto dest: limitedRead_None_smaller[OF sym])
  done

declare copyBuffer.simps [simp del]

text \<open>
  \<open>io.CopyBuffer(io.Discard, sr, buf)\<close>: \<open>io.Discard\<close> is a \<open>ReaderFrom\<close>, so the
  copy is its \<open>ReadFrom\<close>, which reads into a buffer of 8192 bytes of its own until the
  reader returns an error, and reports \<open>io.EOF\<close> as no error.
\<close>

function discardReadFrom ::
  "io_err \<Rightarrow> bytes list \<Rightarrow> int \<Rightarrow> int \<times> io_err option \<times> bytes list \<times> event list" where
  "discardReadFrom fin cs n =
     (case cancelingRead fin 8192 cs of
        ((bs, er), cs', evr) \<Rightarrow>
          (case er of
             Some e \<Rightarrow> (n + int (length bs), if e = EOF then None else Some e, cs', evr)
           | None \<Rightarrow>
               (case discardReadFrom fin cs' (n + int (length bs)) of
                  (n', err, cs'', evs) \<Rightarrow> (n', err, cs'', evr @ evs))))"
  by pat_completeness auto
termination
  apply (relation "measure (\<lambda>(fin, cs, n). chunkSize cs)")
   apply simp
  apply (auto simp: cancelingRead_def split: prod.splits
      dest: bodyRead_None_smaller bodyRead_None_smaller[OF sym])
  done

declare discardReadFrom.simps [simp del]

text \<open>
  Lines 403 to 425. \<open>bufSize\<close> is \<open>bodyCopyBufferSize\<close>, a constant of the package;
  the deferred \<open>body.Close()\<close> is the last event on every path. The result is the
  returned error, what the call has left unread in the body, and the events.
\<close>

definition sendRequestBody ::
  "nat \<Rightarrow> io_err \<Rightarrow> bytes list \<Rightarrow> wres list \<Rightarrow> int \<Rightarrow>
     error option \<times> bytes list \<times> event list" where
  "sendRequestBody bufSize fin cs ws contentLength =
     (if contentLength = -1
      then (case copyBuffer fin bufSize None cs ws 0 of
              (n, e, cs', evs) \<Rightarrow> (map_option External e, cs', evs @ [BodyClose]))
      else
        (case copyBuffer fin bufSize (Some contentLength) cs ws 0 of
           (n, e, cs', evs) \<Rightarrow>
             (case e of
                Some x \<Rightarrow> (Some (External x), cs', evs @ [BodyClose])
              | None \<Rightarrow>
                  (case discardReadFrom fin cs' 0 of
                     (extra, e2, cs'', evs2) \<Rightarrow>
                       if n + extra > contentLength
                       then (Some (ErrContentLength contentLength (n + extra)), cs'',
                             evs @ evs2 @ [StrCancelWrite ErrCodeRequestCanceled, BodyClose])
                       else (map_option External e2, cs'', evs @ evs2 @ [BodyClose])))))"

text \<open>
  Lines 444 to 449: the content length \<open>doRequest\<close> hands to \<open>sendRequestBody\<close>.
\<close>

definition bodyContentLength :: "request \<Rightarrow> int" where
  "bodyContentLength req = (if reqContentLength req > 0 then reqContentLength req else -1)"

fun wrote :: "event list \<Rightarrow> nat" where
  "wrote [] = 0"
| "wrote (StrWrite p # evs) = length p + wrote evs"
| "wrote (_ # evs) = wrote evs"

definition total :: "bytes list \<Rightarrow> nat" where
  "total cs = sum_list (map length cs)"

definition allOk :: "wres list \<Rightarrow> bool" where
  "allOk ws = list_all (\<lambda>r. r = WOk) ws"

section \<open>One request on its stream (client.doRequest)\<close>

text \<open>
  \<open>strconv.ParseInt(s, 10, 64)\<close>: an optional sign, then one decimal digit or more, and
  a value that fits into an \<open>int64\<close>; \<open>None\<close> is a returned error.
\<close>

definition digitVal :: "char \<Rightarrow> nat option" where
  "digitVal c =
     (let n = (of_char c :: nat) in if 48 \<le> n \<and> n \<le> 57 then Some (n - 48) else None)"

fun parseDigits :: "nat \<Rightarrow> string \<Rightarrow> nat option" where
  "parseDigits acc [] = Some acc"
| "parseDigits acc (c # cs) =
     (case digitVal c of None \<Rightarrow> None | Some d \<Rightarrow> parseDigits (acc * 10 + d) cs)"

definition ParseInt :: "string \<Rightarrow> int option" where
  "ParseInt s =
     (case s of
        [] \<Rightarrow> None
      | c # cs \<Rightarrow>
          (let neg = (c = CHR ''-'');
               ds = (if c = CHR ''+'' \<or> c = CHR ''-'' then cs else s)
           in if ds = [] then None
              else (case parseDigits 0 ds of
                      None \<Rightarrow> None
                    | Some v \<Rightarrow>
                        if neg then (if v \<le> 2 ^ 63 then Some (- int v) else None)
                        else (if v < 2 ^ 63 then Some (int v) else None))))"

text \<open>
  What the collaborators and the other goroutines answer during one call. The transport,
  the frame parser, the header codec, \<open>responseFromHeaders\<close>, \<open>authorityAddr\<close>,
  \<open>hostnameFromRequest\<close> and \<open>maybeReplaceError\<close> are outside the client's file, so
  their results are parameters. A wait whose answer is \<open>None\<close> never ends.
  \<open>ctxCause\<close> is \<open>context.Cause(ctx)\<close> of the derived context as line 376 reads it,
  \<open>reqCtxErr\<close> is \<open>req.Context().Err()\<close> as line 255 reads it.
\<close>

datatype hsWait = HandshakeComplete | ReqCtxDone error

datatype stWait = ReceivedSettings Settings | ConnCtxDone error

record env =
  authorityMatches :: bool
  dialResult :: "error option"
  handshakeWait :: "hsWait option"
  settingsWait :: "stWait option"
  openStream :: "(error + StreamID) option"
  writeRequestHeaderErr :: "io_err option"
  firstFrame :: "io_err + frame"
  readFullErr :: "io_err option"
  decodeFull :: "io_err + (string \<times> string) list"
  responseFromHeaders :: "(string \<times> string) list \<Rightarrow> io_err + response"
  ctxCause :: "error option"
  reqCtxErr :: "error option"
  maybeReplaceError :: "error option \<Rightarrow> error option"

text \<open>Lines 24 to 36 and 245 to 250.\<close>

definition MethodGet0RTT :: string where
  "MethodGet0RTT = ''GET_0RTT''"

definition MethodHead0RTT :: string where
  "MethodHead0RTT = ''HEAD_0RTT''"

definition defaultMaxResponseHeaderBytes :: nat where
  "defaultMaxResponseHeaderBytes = 10 * 1 * 2 ^ 20"

definition maxHeaderBytes :: "roundTripperOpts \<Rightarrow> nat" where
  "maxHeaderBytes opts =
     (if MaxHeaderBytes opts \<le> 0 then defaultMaxResponseHeaderBytes
      else nat (MaxHeaderBytes opts))"

text \<open>Lines 428 to 431.\<close>

definition requestGzip :: "roundTripperOpts \<Rightarrow> request \<Rightarrow> bool" where
  "requestGzip opts req \<longleftrightarrow>
     \<not> DisableCompression opts \<and> Method req \<noteq> ''HEAD'' \<and>
     headerGet (reqHeader req) ''Accept-Encoding'' = [] \<and>
     headerGet (reqHeader req) ''Range'' = []"

text \<open>
  Lines 484 to 521: from the response that \<open>responseFromHeaders\<close> built to the one
  \<open>doRequest\<close> returns. \<open>p\<close> is the pointer to the request, \<open>gz\<close> the value of
  \<open>requestGzip\<close>.
\<close>

definition exceptContentLength :: "request \<Rightarrow> response \<Rightarrow> bool" where
  "exceptContentLength req res \<longleftrightarrow>
     map_of (Header res) ''Transfer-Encoding'' \<noteq> None \<or>
     (100 \<le> StatusCode res \<and> StatusCode res < 200) \<or>
     StatusCode res = 204 \<or>
     (Method req = ''CONNECT'' \<and> 200 \<le> StatusCode res \<and> StatusCode res < 300)"

definition headerContentLength :: "header \<Rightarrow> int" where
  "headerContentLength h =
     (case map_of h ''Content-Length'' of
        Some [c] \<Rightarrow> (case ParseInt c of Some n \<Rightarrow> n | None \<Rightarrow> -1)
      | _ \<Rightarrow> -1)"

definition buildResponse :: "bool \<Rightarrow> request \<Rightarrow> nat \<Rightarrow> response \<Rightarrow> response" where
  "buildResponse gz req p res =
     (let res1 = res\<lparr>TLS := True, Request := Some p\<rparr>;
          httpStr = (if map_of (Header res1) ''Content-Length'' \<noteq> None \<and> ContentLength res1 \<ge> 0
                     then LengthLimited (ContentLength res1) else Unlimited);
          respBody = ResponseBody httpStr;
          res2 = (if \<not> exceptContentLength req res1
                  then res1\<lparr>ContentLength := headerContentLength (Header res1)\<rparr>
                  else res1)
      in if gz \<and> headerGet (Header res2) ''Content-Encoding'' = ''gzip''
         then res2\<lparr>Header := headerDel (headerDel (Header res2) ''Content-Encoding'')
                                ''Content-Length'',
                   ContentLength := -1,
                   Body := Some (GzipReader respBody),
                   Uncompressed := True\<rparr>
         else res2\<lparr>Body := Some respBody\<rparr>)"

text \<open>
  Lines 459 to 483, the response side: the first frame, the header block, its decoding.
\<close>

definition receiveResponse ::
  "env \<Rightarrow> roundTripperOpts \<Rightarrow> bool \<Rightarrow> request \<Rightarrow> nat \<Rightarrow> world \<Rightarrow>
     (response option \<times> requestError) \<times> world" where
  "receiveResponse e opts gz req p w =
     (let w1 = emit [ParseNextFrame] w
      in case firstFrame e of
           Inl x \<Rightarrow> ((None, newStreamError ErrCodeFrameError (External x)), w1)
         | Inr (headersFrame n) \<Rightarrow>
             if n > maxHeaderBytes opts
             then ((None, newStreamError ErrCodeFrameError
                            (ErrHeadersTooLarge n (maxHeaderBytes opts))), w1)
             else
               (let w2 = emit [ReadHeaderBlock n] w1
                in case readFullErr e of
                     Some x \<Rightarrow> ((None, newStreamError ErrCodeRequestIncomplete (External x)), w2)
                   | None \<Rightarrow>
                       (case decodeFull e of
                          Inl x \<Rightarrow>
                            ((None, newConnError ErrCodeGeneralProtocolError (External x)), w2)
                        | Inr hfs \<Rightarrow>
                            (case responseFromHeaders e hfs of
                               Inl x \<Rightarrow>
                                 ((None, newStreamError ErrCodeMessageError (External x)), w2)
                             | Inr res \<Rightarrow>
                                 ((Some (buildResponse gz req p res), noError), w2))))
         | Inr _ \<Rightarrow> ((None, newConnError ErrCodeFrameUnexpected ErrExpectedHeaders), w1))"

text \<open>
  Lines 427 to 522. The body is sent by a goroutine of its own, which is an event here:
  \<open>SendRequestBody p n\<close> is the call \<open>sendRequestBody(hstr, req.Body, n)\<close>.
\<close>

definition doRequest ::
  "env \<Rightarrow> roundTripperOpts \<Rightarrow> RoundTripOpts \<Rightarrow> nat \<Rightarrow> world \<Rightarrow>
     (response option \<times> requestError) \<times> world" where
  "doRequest e opts opt p w =
     (let req = reqs w ! p;
          gz = requestGzip opts req;
          w1 = emit [WriteRequestHeader p gz] w
      in case writeRequestHeaderErr e of
           Some x \<Rightarrow> ((None, newStreamError ErrCodeInternalError (External x)), w1)
         | None \<Rightarrow>
             (let w2 = emit (if \<not> reqBody req \<and> \<not> DontCloseRequestStream opt
                             then [StrClose] else []) w1;
                  w3 = emit (if reqBody req then [SendRequestBody p (bodyContentLength req)]
                             else []) w2
              in receiveResponse e opts gz req p w3))"

section \<open>A round trip (client.RoundTripOpt and client.roundTripOpt)\<close>

text \<open>
  A call returns Go's pair of a response and an error, or never returns because a wait
  never ends, or panics on a nil request.
\<close>

datatype outcome =
    Blocks world
  | Panics world
  | Returns "response option \<times> error option" world

fun outWorld :: "outcome \<Rightarrow> world" where
  "outWorld (Blocks w) = w"
| "outWorld (Panics w) = w"
| "outWorld (Returns r w) = w"

definition mapPut :: "StreamID \<Rightarrow> nat \<Rightarrow> (StreamID \<times> nat) list \<Rightarrow> (StreamID \<times> nat) list" where
  "mapPut k v m = (k, v) # filter (\<lambda>(k', _). k' \<noteq> k) m"

definition mapDelete :: "StreamID \<Rightarrow> (StreamID \<times> nat) list \<Rightarrow> (StreamID \<times> nat) list" where
  "mapDelete k m = filter (\<lambda>(k', _). k' \<noteq> k) m"

text \<open>
  Lines 320 to 385, once the stream \<open>sid\<close> is open: the derived context gets the next
  free cancel function and is registered, the request runs, its error is turned into the
  stream and connection aborts, and the deferred function cancels and unregisters. The
  two watcher goroutines of lines 334 to 355 act on the stream from outside this call and
  leave no event here.
\<close>

definition requestOnStream ::
  "env \<Rightarrow> roundTripperOpts \<Rightarrow> RoundTripOpts \<Rightarrow> nat \<Rightarrow> StreamID \<Rightarrow> world \<Rightarrow>
     (response option \<times> error option) \<times> world" where
  "requestOnStream e opts opt p sid w =
     (let cancel = nextCtx w;
          w1 = w\<lparr>nextCtx := Suc cancel, runningCtx := mapPut sid cancel (runningCtx w)\<rparr>;
          ((rsp, rerr), w2) = doRequest e opts opt p w1;
          (res, w3) =
            (case rErr rerr of
               Some x \<Rightarrow>
                 ((None, if ctxCause e = Some errGoaway then Some errGoaway
                         else maybeReplaceError e (Some x)),
                  emit ((case streamErr rerr of
                           Some c \<Rightarrow> [StrCancelWrite c] | None \<Rightarrow> []) @
                        (case connErr rerr of
                           Some c \<Rightarrow> [ConnCloseWithError c (Some x)] | None \<Rightarrow> [])) w2)
             | None \<Rightarrow> ((rsp, maybeReplaceError e None), w2))
      in (res, (emit [Cancel cancel None] w3)\<lparr>runningCtx := mapDelete sid (runningCtx w3)\<rparr>))"

text \<open>Lines 315 to 318.\<close>

definition openRequestStream ::
  "env \<Rightarrow> roundTripperOpts \<Rightarrow> RoundTripOpts \<Rightarrow> nat \<Rightarrow> world \<Rightarrow> outcome" where
  "openRequestStream e opts opt p w =
     (let w1 = emit [OpenStreamSync] w
      in case openStream e of
           None \<Rightarrow> Blocks w1
         | Some (Inl x) \<Rightarrow> Returns (None, Some x) w1
         | Some (Inr sid) \<Rightarrow>
             (case requestOnStream e opts opt p sid w1 of (r, w2) \<Rightarrow> Returns r w2))"

text \<open>Lines 303 to 313.\<close>

definition checkSettings ::
  "env \<Rightarrow> roundTripperOpts \<Rightarrow> RoundTripOpts \<Rightarrow> nat \<Rightarrow> world \<Rightarrow> outcome" where
  "checkSettings e opts opt p w =
     (case CheckSettings opt of
        None \<Rightarrow> openRequestStream e opts opt p w
      | Some chk \<Rightarrow>
          (let w1 = emit [WaitSettings] w
           in case settingsWait e of
                None \<Rightarrow> Blocks w1
              | Some (ConnCtxDone x) \<Rightarrow> Returns (None, Some x) w1
              | Some (ReceivedSettings st) \<Rightarrow>
                  (case chk st of
                     Some x \<Rightarrow> Returns (None, Some x) w1
                   | None \<Rightarrow> openRequestStream e opts opt p w1)))"

text \<open>
  Lines 283 to 301. For a 0-RTT method the request is copied: the copy is a new object
  at the end of \<open>reqs\<close>, and the pointer the rest of the call uses is the copy's.
\<close>

definition sendOrWait ::
  "env \<Rightarrow> roundTripperOpts \<Rightarrow> RoundTripOpts \<Rightarrow> nat \<Rightarrow> world \<Rightarrow> outcome" where
  "sendOrWait e opts opt p w =
     (let req = reqs w ! p
      in if Method req = MethodGet0RTT
         then checkSettings e opts opt (length (reqs w))
                (w\<lparr>reqs := reqs w @ [req\<lparr>Method := ''GET''\<rparr>]\<rparr>)
         else if Method req = MethodHead0RTT
         then checkSettings e opts opt (length (reqs w))
                (w\<lparr>reqs := reqs w @ [req\<lparr>Method := ''HEAD''\<rparr>]\<rparr>)
         else
           (let w1 = emit [WaitHandshake] w
            in case handshakeWait e of
                 None \<Rightarrow> Blocks w1
               | Some HandshakeComplete \<Rightarrow> checkSettings e opts opt p w1
               | Some (ReqCtxDone x) \<Rightarrow> Returns (None, Some x) w1))"

text \<open>Lines 262 to 280, then the rest.\<close>

definition roundTripOpt ::
  "env \<Rightarrow> roundTripperOpts \<Rightarrow> RoundTripOpts \<Rightarrow> nat \<Rightarrow> world \<Rightarrow> outcome" where
  "roundTripOpt e opts opt p w =
     (if p \<ge> length (reqs w) then Panics w
      else if \<not> authorityMatches e then Returns (None, Some ErrWrongClient) w
      else
        (let w1 = (if dialOnce w then w
                   else (emit [Dial] w)\<lparr>dialOnce := True, handshakeErr := dialResult e\<rparr>)
         in case handshakeErr w1 of
              Some x \<Rightarrow> Returns (None, Some x) w1
            | None \<Rightarrow>
                if receivedGoaway w1 then Returns (None, Some errGoaway) w1
                else sendOrWait e opts opt p w1))"

text \<open>Lines 253 to 260.\<close>

definition RoundTripOpt ::
  "env \<Rightarrow> roundTripperOpts \<Rightarrow> RoundTripOpts \<Rightarrow> nat \<Rightarrow> world \<Rightarrow> outcome" where
  "RoundTripOpt e opts opt p w =
     (case roundTripOpt e opts opt p w of
        Returns (rsp, er) w' \<Rightarrow>
          Returns (rsp, if er \<noteq> None \<and> reqCtxErr e \<noteq> None then reqCtxErr e else er) w'
      | out \<Rightarrow> out)"

section \<open>Concrete worlds and requests\<close>

text \<open>
  The predicate the accepted GOAWAY ids satisfy: each is non-negative and a multiple of 4,
  and all but the first are 0.
\<close>

definition fenceP :: "StreamID list \<Rightarrow> bool" where
  "fenceP ids \<longleftrightarrow> (\<forall>x\<in>set ids. 0 \<le> x \<and> 4 dvd x) \<and> set (tl ids) \<subseteq> {0}"

text \<open>A client with three running requests, before and after GOAWAY frames.\<close>

definition clientThree :: world where
  "clientThree = \<lparr>handshakeErr = None, dialOnce = True, receivedGoaway = False,
         runningCtx = [(0, 0), (4, 1), (8, 2)], nextCtx = 3, reqs = [], trace = []\<rparr>"

definition clientAfter8 :: world where
  "clientAfter8 = \<lparr>handshakeErr = None, dialOnce = True, receivedGoaway = True,
         runningCtx = [(0, 0), (4, 1), (8, 2)], nextCtx = 3, reqs = [],
         trace = [GoawayAccepted 8, Cancel 2 (Some errGoaway)]\<rparr>"

definition clientAfter4 :: world where
  "clientAfter4 = \<lparr>handshakeErr = None, dialOnce = True, receivedGoaway = True,
         runningCtx = [(0, 0), (4, 1), (8, 2)], nextCtx = 3, reqs = [],
         trace = [GoawayAccepted 4, Cancel 1 (Some errGoaway), Cancel 2 (Some errGoaway)]\<rparr>"

text \<open>A request with a body of declared length 3.\<close>

definition reqPost :: request where
  "reqPost = \<lparr>Method = ''POST'', reqHeader = [], reqBody = True, reqContentLength = 3\<rparr>"

text \<open>
  Requests, options, answers of the collaborators and clients for the round trips: a
  response with status 204 that carries a Content-Length header, a client that is ready,
  one that has received a GOAWAY frame, and what is left of them after a request.
\<close>

definition reqGet :: request where
  "reqGet = \<lparr>Method = ''GET'', reqHeader = [], reqBody = False, reqContentLength = 0\<rparr>"

definition reqGet0RTT :: request where
  "reqGet0RTT = \<lparr>Method = ''GET_0RTT'', reqHeader = [], reqBody = False, reqContentLength = 0\<rparr>"

definition reqHead :: request where
  "reqHead = \<lparr>Method = ''HEAD'', reqHeader = [], reqBody = False, reqContentLength = 0\<rparr>"

definition optsDefault :: roundTripperOpts where
  "optsDefault = \<lparr>DisableCompression = False, MaxHeaderBytes = 0\<rparr>"

definition optDefault :: RoundTripOpts where
  "optDefault = \<lparr>CheckSettings = None, DontCloseRequestStream = False\<rparr>"

definition res204 :: response where
  "res204 = \<lparr>StatusCode = 204, Header = [(''Content-Length'', [''5''])], ContentLength = 5,
              Uncompressed = False, Body = None, Request = None, TLS = False\<rparr>"

definition hfs204 :: "(string \<times> string) list" where
  "hfs204 = [('':status'', ''204''), (''content-length'', ''5'')]"

definition envOK :: env where
  "envOK = \<lparr>authorityMatches = True, dialResult = None,
            handshakeWait = Some HandshakeComplete, settingsWait = None,
            openStream = Some (Inr 0), writeRequestHeaderErr = None,
            firstFrame = Inr (headersFrame 10), readFullErr = None, decodeFull = Inr hfs204,
            responseFromHeaders = (\<lambda>hfs. Inr res204),
            ctxCause = None, reqCtxErr = None, maybeReplaceError = (\<lambda>x. x)\<rparr>"

definition clientReady :: world where
  "clientReady = \<lparr>handshakeErr = None, dialOnce = True, receivedGoaway = False,
                  runningCtx = [], nextCtx = 0, reqs = [reqGet, reqGet0RTT, reqHead], trace = []\<rparr>"

definition clientGoaway :: world where
  "clientGoaway = clientReady\<lparr>receivedGoaway := True\<rparr>"

definition res204Final :: response where
  "res204Final = res204\<lparr>TLS := True, Request := Some 0, Body := Some (ResponseBody (LengthLimited 5))\<rparr>"

definition clientDone :: world where
  "clientDone = clientReady\<lparr>trace := [WriteRequestHeader 0 True, StrClose, ParseNextFrame, ReadHeaderBlock 10]\<rparr>"

definition envGoaway :: env where
  "envGoaway = envOK\<lparr>firstFrame := Inl (IOErr ''stream canceled''), ctxCause := Some errGoaway\<rparr>"

definition envRace :: env where
  "envRace = envGoaway\<lparr>reqCtxErr := Some ContextCanceled\<rparr>"

definition clientFailed :: world where
  "clientFailed = clientReady\<lparr>nextCtx := 1,
     trace := [WaitHandshake, OpenStreamSync, WriteRequestHeader 0 True, StrClose,
               ParseNextFrame, StrCancelWrite ErrCodeFrameError, Cancel 0 None]\<rparr>"

text \<open>
  Requests with an Accept-Encoding or a Range header, one of them with the empty string
  as its value, and a client that holds them.
\<close>

definition reqBr :: request where
  "reqBr = \<lparr>Method = ''GET'', reqHeader = [(''Accept-Encoding'', [''br''])],
            reqBody = False, reqContentLength = 0\<rparr>"

definition reqRange :: request where
  "reqRange = \<lparr>Method = ''GET'', reqHeader = [(''Range'', [''bytes=0-99''])],
               reqBody = False, reqContentLength = 0\<rparr>"

definition reqEmptyAE :: request where
  "reqEmptyAE = \<lparr>Method = ''GET'', reqHeader = [(''Accept-Encoding'', [''''])],
                 reqBody = False, reqContentLength = 0\<rparr>"

definition clientHeaders :: world where
  "clientHeaders = \<lparr>handshakeErr = None, dialOnce = True, receivedGoaway = False,
                    runningCtx = [], nextCtx = 0,
                    reqs = [reqGet, reqBr, reqRange, reqHead, reqEmptyAE], trace = []\<rparr>"

definition clientEmptyAE :: world where
  "clientEmptyAE = clientHeaders\<lparr>trace := [WriteRequestHeader 4 True, StrClose, ParseNextFrame, ReadHeaderBlock 10]\<rparr>"

text \<open>
  Lines 267 to 269: the client after \<open>dialOnce.Do\<close>, and a client that has not dialed.
\<close>

definition afterDial :: "env \<Rightarrow> world \<Rightarrow> world" where
  "afterDial e w =
     (if dialOnce w then w
      else (emit [Dial] w)\<lparr>dialOnce := True, handshakeErr := dialResult e\<rparr>)"


section \<open>Classes of events and of requests\<close>

text \<open>
  The events \<open>doRequest\<close> emits after the request header, the events a call can emit
  from the settings check on for the request at \<open>p\<close>, the events it can emit before a
  stream is open, and the 0-RTT requests with the copy line 286 or 291 makes of them.
\<close>

definition afterHeader :: "event \<Rightarrow> bool" where
  "afterHeader ev \<longleftrightarrow> ev = StrClose \<or> ev = ParseNextFrame \<or>
     (\<exists>p n. ev = SendRequestBody p n) \<or> (\<exists>n. ev = ReadHeaderBlock n)"

definition lateEvent :: "nat \<Rightarrow> event \<Rightarrow> bool" where
  "lateEvent p ev \<longleftrightarrow> ev \<noteq> WaitHandshake \<and> ev \<noteq> Dial \<and> (\<forall>q g. ev = WriteRequestHeader q g \<longrightarrow> q = p)"

definition early :: "event \<Rightarrow> bool" where
  "early ev \<longleftrightarrow> ev = Dial \<or> ev = WaitHandshake \<or> ev = WaitSettings \<or> ev = OpenStreamSync"

definition earlyOrStream ::
  "env \<Rightarrow> roundTripperOpts \<Rightarrow> RoundTripOpts \<Rightarrow> world \<Rightarrow> outcome \<Rightarrow> bool" where
  "earlyOrStream e opts opt w out \<longleftrightarrow>
     (\<exists>evs. trace (outWorld out) = trace w @ evs \<and> (\<forall>ev\<in>set evs. early ev)) \<or>
     (\<exists>q sid w0 w'. out = Returns (fst (requestOnStream e opts opt q sid w0)) w')"

definition is0RTT :: "request \<Rightarrow> bool" where
  "is0RTT req \<longleftrightarrow> Method req = MethodGet0RTT \<or> Method req = MethodHead0RTT"

definition copy0RTT :: "request \<Rightarrow> request" where
  "copy0RTT req = req\<lparr>Method := (if Method req = MethodGet0RTT then ''GET'' else ''HEAD'')\<rparr>"

section \<open>Properties of the control stream\<close>




lemma smod4: "0 \<le> (g::int) \<Longrightarrow> (g smod 4 = 0) = (4 dvd g)"
  by (simp add: signed_modulo_int_def sgn_if dvd_eq_mod_eq_0)

lemma goawayIDs_append: "goawayIDs (xs @ ys) = goawayIDs xs @ goawayIDs ys"
  by (induction xs rule: goawayIDs.induct) simp_all

lemma goawayIDs_cancelRunning: "goawayIDs (cancelRunning g r) = []"
  by (induction r) (auto simp: goawayIDs_append)

lemma newEvents_append: "trace w' = trace w @ evs \<Longrightarrow> newEvents w w' = evs"
  by (simp add: newEvents_def)

lemma controlStep_trace:
  "\<exists>evs. trace (world_of (controlStep 0 w x)) = trace w @ evs \<and>
     (receivedGoaway w \<longrightarrow> receivedGoaway (world_of (controlStep 0 w x)) \<and> set (goawayIDs evs) \<subseteq> {0}) \<and>
     (\<not> receivedGoaway w \<longrightarrow> 
        (goawayIDs evs = [] \<and> (controlStep 0 w x = Running w \<or> (\<exists>w'. controlStep 0 w x = Returned w'))) \<or> 
        (\<exists>g. goawayIDs evs = [g] \<and> 0 \<le> g \<and> 4 dvd g \<and> receivedGoaway (world_of (controlStep 0 w x))))"
proof (cases x)
  case (Inl a) then show ?thesis by simp
next
  case (Inr f)
  show ?thesis
  proof (cases f)
    case (goawayFrame g)
    show ?thesis using Inr goawayFrame
      by (auto simp: emit_def invalidGoaway_def goawayIDs_cancelRunning smod4)
  qed (simp_all add: Inr)
qed

lemma controlLoop_recv:
  "receivedGoaway w \<Longrightarrow> \<exists>evs. trace (world_of (controlLoop 0 w fs)) = trace w @ evs \<and> set (goawayIDs evs) \<subseteq> {0}
      \<and> receivedGoaway (world_of (controlLoop 0 w fs))"
proof (induction fs arbitrary: w)
  case Nil then show ?case by simp
next
  case (Cons x xs)
  from controlStep_trace[of w x] Cons.prems obtain e1 where
    e1: "trace (world_of (controlStep 0 w x)) = trace w @ e1" "receivedGoaway (world_of (controlStep 0 w x))"
        "set (goawayIDs e1) \<subseteq> {0}" by blast
  show ?case
  proof (cases "controlStep 0 w x")
    case (Returned w') with e1 show ?thesis by auto
  next
    case (Running w')
    with e1 have r: "receivedGoaway w'" "trace w' = trace w @ e1" by auto
    from Cons.IH[OF r(1)] obtain e2 where "trace (world_of (controlLoop 0 w' xs)) = trace w' @ e2"
      "set (goawayIDs e2) \<subseteq> {0}" "receivedGoaway (world_of (controlLoop 0 w' xs))" by blast
    with r e1 Running show ?thesis by (auto simp: goawayIDs_append)
  qed
qed


lemma controlLoop_any:
  "\<exists>evs. trace (world_of (controlLoop 0 w fs)) = trace w @ evs \<and> fenceP (goawayIDs evs)
      \<and> (goawayIDs evs \<noteq> [] \<longrightarrow> receivedGoaway (world_of (controlLoop 0 w fs)))"
proof (cases "receivedGoaway w")
  case True
  from controlLoop_recv[OF True, of fs] obtain evs where
    e: "trace (world_of (controlLoop 0 w fs)) = trace w @ evs" "set (goawayIDs evs) \<subseteq> {0}"
       "receivedGoaway (world_of (controlLoop 0 w fs))" by blast
  have z: "\<And>x. x \<in> set (goawayIDs evs) \<Longrightarrow> x = 0" using e(2) by auto
  have "fenceP (goawayIDs evs)"
    unfolding fenceP_def using z by (cases "goawayIDs evs") auto
  with e show ?thesis by blast
next
  case False
  then show ?thesis
  proof (induction fs arbitrary: w)
    case Nil then show ?case by (simp add: fenceP_def)
  next
    case (Cons x xs)
    from controlStep_trace[of w x] Cons.prems obtain e1 where
      e1: "trace (world_of (controlStep 0 w x)) = trace w @ e1"
      and d: "(goawayIDs e1 = [] \<and> (controlStep 0 w x = Running w \<or> (\<exists>w'. controlStep 0 w x = Returned w'))) \<or> 
        (\<exists>g. goawayIDs e1 = [g] \<and> 0 \<le> g \<and> 4 dvd g \<and> receivedGoaway (world_of (controlStep 0 w x)))"
      by blast
    show ?case
    proof (cases "controlStep 0 w x")
      case (Returned w')
      with e1 d show ?thesis by (auto simp: fenceP_def)
    next
      case (Running w')
      from d show ?thesis
      proof
        assume a: "goawayIDs e1 = [] \<and> (controlStep 0 w x = Running w \<or> (\<exists>w'. controlStep 0 w x = Returned w'))"
        with Running have "w' = w" by auto
        with Cons.IH[OF Cons.prems] Running show ?thesis by simp
      next
        assume "\<exists>g. goawayIDs e1 = [g] \<and> 0 \<le> g \<and> 4 dvd g \<and> receivedGoaway (world_of (controlStep 0 w x))"
        then obtain g where g: "goawayIDs e1 = [g]" "0 \<le> g" "4 dvd g" "receivedGoaway w'"
          using Running by auto
        from controlLoop_recv[OF g(4), of xs] obtain e2 where
          e2: "trace (world_of (controlLoop 0 w' xs)) = trace w' @ e2" "set (goawayIDs e2) \<subseteq> {0}"
              "receivedGoaway (world_of (controlLoop 0 w' xs))" by blast
        from e1 Running have "trace w' = trace w @ e1" by simp
        with e2 g Running show ?thesis
          by (auto simp: goawayIDs_append fenceP_def)
      qed
    qed
  qed
qed

lemma fenceP_index:
  assumes "fenceP ids"
  shows "(\<forall>i<length ids. 0 \<le> ids ! i \<and> 4 dvd ids ! i) \<and> (\<forall>i. Suc i < length ids \<longrightarrow> ids ! Suc i \<le> ids ! i)"
proof (cases ids)
  case Nil then show ?thesis by simp
next
  case (Cons a as)
  have z: "\<And>i. i < length as \<Longrightarrow> as ! i = 0"
    using assms Cons by (auto simp: fenceP_def dest: nth_mem)
  have p: "\<And>i. i < length ids \<Longrightarrow> 0 \<le> ids ! i \<and> 4 dvd ids ! i"
    using assms unfolding fenceP_def by (meson nth_mem)
  show ?thesis
  proof (intro conjI allI impI)
    fix i assume "Suc i < length ids"
    then have "ids ! Suc i = 0" "0 \<le> ids ! i" using z[of i] p[of i] Cons by auto
    then show "ids ! Suc i \<le> ids ! i" by simp
  qed (use p in auto)
qed

lemma controlLoop_append:
  "controlLoop l w pre = Running w1 \<Longrightarrow>
   controlLoop l w (pre @ x # post) =
     (case controlStep l w1 x of Returned w' \<Rightarrow> Returned w' | Running w' \<Rightarrow> controlLoop l w' post)"
  by (induction pre arbitrary: w) (auto split: ctl.splits)

lemma violates_invalid:
  assumes "fenceP ids" "ids \<noteq> [] \<longrightarrow> receivedGoaway w1" "violatesFence ids g"
  shows "invalidGoaway w1 0 g"
proof (cases "g < 0")
  case True then show ?thesis by (simp add: invalidGoaway_def)
next
  case False
  then have g0: "0 \<le> g" by simp
  show ?thesis
  proof (cases "4 dvd g")
    case False with g0 show ?thesis by (simp add: invalidGoaway_def smod4)
  next
    case True
    with g0 assms(3) have ne: "ids \<noteq> []" and gt: "g > last ids" by (auto simp: violatesFence_def)
    from ne assms(1) have "0 \<le> last ids" by (auto simp: fenceP_def)
    with gt ne assms(2) show ?thesis by (simp add: invalidGoaway_def)
  qed
qed

lemma set_cancelRunning:
  "(e \<in> set (cancelRunning g r)) = (\<exists>i h. e = Cancel h (Some errGoaway) \<and> (i, h) \<in> set r \<and> g \<le> i)"
  by (induction r) (auto | blast)+

lemma distinct_snd_eq:
  "distinct (map snd r) \<Longrightarrow> (i, h) \<in> set r \<Longrightarrow> (j, h) \<in> set r \<Longrightarrow> i = j"
  by (induction r) (auto simp: image_iff)


text \<open>
  C1. Whatever the control stream delivers, the ids of the GOAWAY frames the loop accepts
  are non-negative multiples of 4 and each is at most the one accepted before it. And
  when the loop is still running after the frames \<open>pre\<close>, a GOAWAY frame that breaks the
  rule (negative id, not a multiple of 4, or greater than the last accepted id) makes the
  loop close the connection with the id error and return, whatever follows.
  The code is stricter than the rule: \<open>lastID\<close> is never assigned and stays 0, so a
  later GOAWAY is accepted only with id 0.
\<close>

theorem goaway_fence:
  "(let ids = goawayIDs (newEvents w (world_of (readControlStream w fs)))
    in (\<forall>i<length ids. 0 \<le> ids ! i \<and> 4 dvd ids ! i) \<and>
       (\<forall>i. Suc i < length ids \<longrightarrow> ids ! Suc i \<le> ids ! i)) \<and>
   (readControlStream w pre = Running w1 \<and> violatesFence (goawayIDs (newEvents w w1)) g \<longrightarrow>
      readControlStream w (pre @ Inr (goawayFrame g) # post) =
        Returned (emit [ConnCloseWithError ErrCodeIDError None] w1))"
proof (intro conjI impI)
  from controlLoop_any[of w fs] obtain evs where
    e: "trace (world_of (controlLoop 0 w fs)) = trace w @ evs" "fenceP (goawayIDs evs)" by blast
  then have "newEvents w (world_of (readControlStream w fs)) = evs"
    by (simp add: readControlStream_def newEvents_append)
  with fenceP_index[OF e(2)]
  show "let ids = goawayIDs (newEvents w (world_of (readControlStream w fs)))
    in (\<forall>i<length ids. 0 \<le> ids ! i \<and> 4 dvd ids ! i) \<and>
       (\<forall>i. Suc i < length ids \<longrightarrow> ids ! Suc i \<le> ids ! i)"
    by (simp add: Let_def)
next
  assume a: "readControlStream w pre = Running w1 \<and> violatesFence (goawayIDs (newEvents w w1)) g"
  then have run: "controlLoop 0 w pre = Running w1" by (simp add: readControlStream_def)
  from controlLoop_any[of w pre] run obtain evs where
    e: "trace w1 = trace w @ evs" "fenceP (goawayIDs evs)" "goawayIDs evs \<noteq> [] \<longrightarrow> receivedGoaway w1"
    by auto
  then have "newEvents w w1 = evs" by (simp add: newEvents_append)
  with a e have "invalidGoaway w1 0 g" by (auto intro: violates_invalid)
  then show "readControlStream w (pre @ Inr (goawayFrame g) # post) =
        Returned (emit [ConnCloseWithError ErrCodeIDError None] w1)"
    by (simp add: readControlStream_def controlLoop_append[OF run])
qed


theorem goaway_fence_witness:
  "readControlStream clientThree [Inr (goawayFrame 8)] = Running clientAfter8 \<and>
   violatesFence (goawayIDs (newEvents clientThree clientAfter8)) 12 \<and>
   readControlStream clientThree ([Inr (goawayFrame 8)] @ [Inr (goawayFrame 12), Inr (goawayFrame 0)]) =
     Returned (emit [ConnCloseWithError ErrCodeIDError None] clientAfter8) \<and>
   goawayIDs (newEvents clientThree (world_of (readControlStream clientThree [Inr (goawayFrame 8), Inr (goawayFrame 0)]))) = [8, 0]"
  using goaway_fence [of clientThree "[Inr (goawayFrame 8), Inr (goawayFrame 0)]" "[Inr (goawayFrame 8)]" clientAfter8 12 "[Inr (goawayFrame 0)]"]
  by (simp add: readControlStream_def clientThree_def clientAfter8_def invalidGoaway_def emit_def newEvents_def
      violatesFence_def signed_modulo_int_def)


text \<open>
  How much stricter the code is: once a GOAWAY has been received, a GOAWAY frame with any
  id but 0 is rejected, also one that lowers the fence, such as 4 after 8.
\<close>

lemma lastID_stays_zero:
  "receivedGoaway w \<Longrightarrow> g \<noteq> 0 \<Longrightarrow>
     controlStep 0 w (Inr (goawayFrame g)) =
       Returned (emit [ConnCloseWithError ErrCodeIDError None] w)"
  by (auto simp: invalidGoaway_def)

lemma goaway_8_then_4:
  "readControlStream clientThree [Inr (goawayFrame 8), Inr (goawayFrame 4)] =
     Returned (emit [ConnCloseWithError ErrCodeIDError None] clientAfter8)"
  by (simp add: readControlStream_def clientThree_def clientAfter8_def invalidGoaway_def
      emit_def signed_modulo_int_def)

text \<open>
  C2. When the loop accepts a GOAWAY frame with id \<open>G\<close>, a request registered in
  \<open>runningCtx\<close> under the stream id \<open>i\<close> has its cancel function called with
  \<open>errGoaway\<close> exactly when \<open>G \<le> i\<close>; the cancel function of a request with a
  smaller id is not called at all. Every request has a cancel function of its own.
\<close>

theorem goaway_cancels:
  assumes "controlStep lastID w (Inr (goawayFrame G)) = Running w'"
    and "distinct (map snd (runningCtx w))"
    and "(i, h) \<in> set (runningCtx w)"
  shows "(Cancel h (Some errGoaway) \<in> set (newEvents w w')) = (G \<le> i) \<and>
         (\<forall>c. Cancel h c \<in> set (newEvents w w') \<longrightarrow> c = Some errGoaway \<and> G \<le> i)"
proof -
  from assms(1) have "trace w' = trace w @ GoawayAccepted G # cancelRunning G (runningCtx w)"
    by (auto simp: emit_def split: if_splits)
  then have n: "newEvents w w' = GoawayAccepted G # cancelRunning G (runningCtx w)"
    by (rule newEvents_append)
  show ?thesis
    unfolding n using assms(2,3) by (auto simp: set_cancelRunning dest: distinct_snd_eq)
qed


theorem goaway_cancels_witness:
  "controlStep 0 clientThree (Inr (goawayFrame 4)) = Running clientAfter4 \<and>
   distinct (map snd (runningCtx clientThree)) \<and> (8, 2) \<in> set (runningCtx clientThree) \<and>
   Cancel 2 (Some errGoaway) \<in> set (newEvents clientThree clientAfter4)"
  using goaway_cancels [of 0 clientThree 4 clientAfter4 8 2]
  by (simp add: clientThree_def clientAfter4_def invalidGoaway_def emit_def newEvents_def signed_modulo_int_def)


section \<open>Properties of the request body\<close>

lemma wrote_append [simp]: "wrote (xs @ ys) = wrote xs + wrote ys"
  by (induction xs rule: wrote.induct) simp_all

lemma bodyRead_total:
  "bodyRead fin k cs = ((bs, er), cs') \<Longrightarrow> total cs = length bs + total cs'"
  by (cases cs) (auto simp: total_def split: if_splits)

lemma bodyRead_le: "bodyRead fin k cs = ((bs, er), cs') \<Longrightarrow> length bs \<le> k"
  by (cases cs) (auto split: if_splits)

lemma bodyRead_err: "bodyRead fin k cs = ((bs, Some e), cs') \<Longrightarrow> e = fin \<and> bs = [] \<and> cs = [] \<and> cs' = []"
  by (cases cs) (auto split: if_splits)

lemma limitedRead_Some:
  assumes "limitedRead fin (Some N) k cs = ((bs, er), lim', cs', evr)" "0 \<le> N"
  shows "\<exists>N'. lim' = Some N' \<and> 0 \<le> N' \<and> N' = N - int (length bs) \<and> total cs = length bs + total cs'
           \<and> wrote evr = 0"
  using assms
  by (auto simp: limitedRead_def cancelingRead_def split: if_splits prod.splits
      dest: bodyRead_total bodyRead_le)

lemma strWrite_wrote: "strWrite p ws = ((nw, ew), ws', evw) \<Longrightarrow> wrote evw = nw \<and> nw \<le> length p"
  by (cases "(p, ws)" rule: strWrite.cases) auto

lemma copyBuffer_bound:
  "copyBuffer fin k (Some N) cs ws written = (n, err, cs', evs) \<Longrightarrow> 0 \<le> N \<Longrightarrow>
     int (wrote evs) = n - written \<and> n - written \<le> N \<and>
     n - written + int (total cs') \<le> int (total cs) \<and>
     int (total cs) - int (total cs') \<le> N \<and> total cs' \<le> total cs \<and>
     (err = None \<longrightarrow> n - written + int (total cs') = int (total cs))"
proof (induction "chunkSize cs" arbitrary: cs ws written N n err cs' evs rule: less_induct)
  case less
  show ?case
  proof (cases "k = 0")
    case True
    with less.prems show ?thesis by (simp add: copyBuffer.simps[of fin 0 "Some N" cs ws written])
  next
    case False
    obtain bs er lim1 cs1 evr where lr: "limitedRead fin (Some N) k cs = ((bs, er), lim1, cs1, evr)"
      by (metis prod.exhaust)
    from limitedRead_Some[OF lr less.prems(2)] obtain N1 where
      n1: "lim1 = Some N1" "0 \<le> N1" "N1 = N - int (length bs)" "total cs = length bs + total cs1" "wrote evr = 0"
      by blast
    obtain nw ew ws1 evw where sw: "(if bs = [] then ((0, None), ws, []) else strWrite bs ws) = ((nw, ew), ws1, evw)"
      by (metis prod.exhaust)
    have w: "wrote evw = nw \<and> nw \<le> length bs"
      using sw by (auto split: if_splits dest: strWrite_wrote)
    show ?thesis
    proof (cases "ew \<noteq> None \<or> nw \<noteq> length bs \<or> er \<noteq> None")
      case True
      with less.prems(1) False lr sw n1 w show ?thesis
        by (auto simp: copyBuffer.simps[of fin k "Some N" cs ws written] split: if_splits option.splits)
    next
      case f: False
      then have er: "er = None" "ew = None" "nw = length bs" by auto
      obtain n2 err2 cs2 evs2 where rec: "copyBuffer fin k (Some N1) cs1 ws1 (written + int nw) = (n2, err2, cs2, evs2)"
        by (metis prod.exhaust)
      have sm: "chunkSize cs1 < chunkSize cs"
        using limitedRead_None_smaller[of fin "Some N" k cs bs lim1 cs1 evr] lr er False by simp
      from less.hyps[OF sm rec n1(2)] have ih: "int (wrote evs2) = n2 - (written + int nw)"
        "n2 - (written + int nw) \<le> N1" "n2 - (written + int nw) + int (total cs2) \<le> int (total cs1)"
        "int (total cs1) - int (total cs2) \<le> N1" "total cs2 \<le> total cs1"
        "err2 = None \<longrightarrow> n2 - (written + int nw) + int (total cs2) = int (total cs1)" by auto
      from less.prems(1) False lr sw n1 er rec
      have "n = n2" "cs' = cs2" "evs = evr @ evw @ evs2" "err = err2"
        by (auto simp: copyBuffer.simps[of fin k "Some N" cs ws written])
      with ih n1 w er show ?thesis by auto
    qed
  qed
qed

lemma strWrite_allOk:
  "allOk ws \<Longrightarrow> strWrite p ws = ((nw, ew), ws', evw) \<Longrightarrow> nw = length p \<and> ew = None \<and> allOk ws'"
  by (cases "(p, ws)" rule: strWrite.cases) (auto simp: allOk_def)

lemma limitedRead_Some_err:
  assumes "limitedRead fin (Some N) k cs = ((bs, Some e), lim', cs', evr)" "0 \<le> N"
  shows "bs = [] \<and> cs' = cs \<and> (if N = 0 then e = EOF else e = fin \<and> cs = [])"
  using assms
  by (auto simp: limitedRead_def cancelingRead_def split: if_splits prod.splits
      dest: bodyRead_err)

lemma total_Nil [simp]: "total [] = 0"
  by (simp add: total_def)

lemma copyBuffer_allOk:
  "copyBuffer fin k (Some N) cs ws written = (n, err, cs', evs) \<Longrightarrow> 0 \<le> N \<Longrightarrow> 0 < k \<Longrightarrow> allOk ws \<Longrightarrow>
     (N \<le> int (total cs) \<longrightarrow> n = written + N \<and> err = None \<and> int (total cs') = int (total cs) - N) \<and>
     (int (total cs) < N \<longrightarrow> n = written + int (total cs) \<and> err = (if fin = EOF then None else Some fin) \<and> total cs' = 0)"
proof (induction "chunkSize cs" arbitrary: cs ws written N n err cs' evs rule: less_induct)
  case less
  from less.prems(3) have k0: "k \<noteq> 0" by simp
  obtain bs er lim1 cs1 evr where lr: "limitedRead fin (Some N) k cs = ((bs, er), lim1, cs1, evr)"
    by (metis prod.exhaust)
  from limitedRead_Some[OF lr less.prems(2)] obtain N1 where
    n1: "lim1 = Some N1" "0 \<le> N1" "N1 = N - int (length bs)" "total cs = length bs + total cs1"
    by blast
  obtain nw ew ws1 evw where sw: "(if bs = [] then ((0, None), ws, []) else strWrite bs ws) = ((nw, ew), ws1, evw)"
    by (metis prod.exhaust)
  have w: "nw = length bs \<and> ew = None \<and> allOk ws1"
    using sw less.prems(4) by (auto split: if_splits dest: strWrite_allOk)
  show ?case
  proof (cases er)
    case (Some e)
    from limitedRead_Some_err[OF lr[unfolded Some] less.prems(2)]
    have e: "bs = []" "cs1 = cs" "if N = 0 then e = EOF else e = fin \<and> cs = []" by auto
    from less.prems(1) k0 lr sw w Some
    have "n = written + int nw" "err = (if e = EOF then None else Some e)" "cs' = cs1"
      by (auto simp: copyBuffer.simps[of fin k "Some N" cs ws written])
    with e w less.prems(2) show ?thesis by (auto split: if_splits)
  next
    case None
    obtain n2 err2 cs2 evs2 where rec: "copyBuffer fin k (Some N1) cs1 ws1 (written + int nw) = (n2, err2, cs2, evs2)"
      by (metis prod.exhaust)
    have sm: "chunkSize cs1 < chunkSize cs"
      using limitedRead_None_smaller[of fin "Some N" k cs bs lim1 cs1 evr] lr None less.prems(3) by simp
    from w have ok1: "allOk ws1" by simp
    note ih = less.hyps[OF sm rec n1(2) less.prems(3) ok1]
    from less.prems(1) k0 lr sw n1 w None rec
    have "n = n2" "cs' = cs2" "err = err2"
      by (auto simp: copyBuffer.simps[of fin k "Some N" cs ws written])
    with ih n1 w show ?thesis by auto
  qed
qed

lemma discardReadFrom_total:
  "discardReadFrom fin cs n = (n', err, cs', evs) \<Longrightarrow>
     n' = n + int (total cs) \<and> err = (if fin = EOF then None else Some fin) \<and> cs' = []"
proof (induction "chunkSize cs" arbitrary: cs n n' err cs' evs rule: less_induct)
  case less
  obtain bs er cs1 evr where cr: "cancelingRead fin 8192 cs = ((bs, er), cs1, evr)"
    by (metis prod.exhaust)
  then have br: "bodyRead fin 8192 cs = ((bs, er), cs1)"
    by (auto simp: cancelingRead_def split: prod.splits)
  note t = bodyRead_total[OF br]
  show ?case
  proof (cases er)
    case (Some e)
    with br have e: "e = fin \<and> bs = [] \<and> cs = []" by (auto dest: bodyRead_err)
    from less.prems cr Some
    have "n' = n + int (length bs)" "err = (if e = EOF then None else Some e)" "cs' = cs1"
      by (auto simp: discardReadFrom.simps[of fin cs n])
    with e br show ?thesis by simp
  next
    case None
    obtain n2 err2 cs2 evs2 where rec: "discardReadFrom fin cs1 (n + int (length bs)) = (n2, err2, cs2, evs2)"
      by (metis prod.exhaust)
    have sm: "chunkSize cs1 < chunkSize cs"
      using bodyRead_None_smaller[of fin 8192 cs bs cs1] br None by simp
    from less.hyps[OF sm rec] less.prems cr None rec t show ?thesis
      by (auto simp: discardReadFrom.simps[of fin cs n])
  qed
qed




lemma discardReadFrom_wrote:
  "discardReadFrom fin cs n = (n', e, cs', evs) \<Longrightarrow> wrote evs = 0"
proof (induction "chunkSize cs" arbitrary: cs n n' e cs' evs rule: less_induct)
  case less
  obtain bs er cs1 evr where cr: "cancelingRead fin 8192 cs = ((bs, er), cs1, evr)"
    by (metis prod.exhaust)
  then have br: "bodyRead fin 8192 cs = ((bs, er), cs1)" and w0: "wrote evr = 0"
    by (auto simp: cancelingRead_def split: prod.splits if_splits)
  show ?case
  proof (cases er)
    case (Some x)
    with less.prems cr w0 show ?thesis
      by (auto simp: discardReadFrom.simps[of fin cs n])
  next
    case None
    obtain n2 e2 cs2 evs2 where rec: "discardReadFrom fin cs1 (n + int (length bs)) = (n2, e2, cs2, evs2)"
      by (metis prod.exhaust)
    have sm: "chunkSize cs1 < chunkSize cs"
      using bodyRead_None_smaller[of fin 8192 cs bs cs1] br None by simp
    from less.hyps[OF sm rec] less.prems cr None rec w0 show ?thesis
      by (auto simp: discardReadFrom.simps[of fin cs n])
  qed
qed


text \<open>
  What \<open>sendRequestBody\<close> does in terms of the bytes it has read from the body: it never
  writes more than the declared length \<open>L\<close>; it fails with the length-mismatch error,
  after cancelling the write side, exactly when it has read more than \<open>L\<close> bytes; and
  when the writes to the stream succeed it reads the body to its end.
\<close>

lemma sendRequestBody_read:
  assumes L: "reqContentLength req > 0"
    and run: "sendRequestBody bufSize fin cs ws (bodyContentLength req) = (res, cs', evs)"
  shows "int (wrote evs) \<le> reqContentLength req \<and> total cs' \<le> total cs \<and>
         (reqContentLength req < int (total cs - total cs') \<longrightarrow>
            res = Some (ErrContentLength (reqContentLength req) (int (total cs - total cs'))) \<and>
            StrCancelWrite ErrCodeRequestCanceled \<in> set evs) \<and>
         (int (total cs - total cs') \<le> reqContentLength req \<longrightarrow>
            (\<forall>a b. res \<noteq> Some (ErrContentLength a b))) \<and>
         (0 < bufSize \<and> allOk ws \<longrightarrow> total cs' = 0)"
proof -
  define N where "N = reqContentLength req"
  have bl: "bodyContentLength req = N" "N \<noteq> -1" "0 \<le> N" "0 < N"
    using L by (auto simp: bodyContentLength_def N_def)
  obtain n e cs1 evs1 where cp: "copyBuffer fin bufSize (Some N) cs ws 0 = (n, e, cs1, evs1)"
    by (metis prod.exhaust)
  note b = copyBuffer_bound[OF cp bl(3)]
  obtain extra e2 cs2 evs2 where dr: "discardReadFrom fin cs1 0 = (extra, e2, cs2, evs2)"
    by (metis prod.exhaust)
  note d = discardReadFrom_total[OF dr] discardReadFrom_wrote[OF dr]
  have res: "(res, cs', evs) =
     (case e of Some x \<Rightarrow> (Some (External x), cs1, evs1 @ [BodyClose])
      | None \<Rightarrow> if n + extra > N
                 then (Some (ErrContentLength N (n + extra)), cs2,
                       evs1 @ evs2 @ [StrCancelWrite ErrCodeRequestCanceled, BodyClose])
                 else (map_option External e2, cs2, evs1 @ evs2 @ [BodyClose]))"
    using run bl cp dr by (auto simp: sendRequestBody_def split: option.splits)
  show ?thesis
  proof (cases e)
    case (Some x)
    with res have r: "res = Some (External x)" "cs' = cs1" "evs = evs1 @ [BodyClose]" by auto
    have all: "total cs' = 0" if "0 < bufSize" "allOk ws"
    proof -
      from copyBuffer_allOk[OF cp bl(3) that] Some have "total cs1 = 0" by (cases "N \<le> int (total cs)") auto
      with r show ?thesis by simp
    qed
    from r b all show ?thesis unfolding N_def[symmetric] by auto
  next
    case None
    with b have n: "n + int (total cs1) = int (total cs)" by simp
    from d have x: "extra = int (total cs1)" "cs2 = []" "wrote evs2 = 0" by auto
    from res None have c: "cs' = cs2" by (auto split: if_splits)
    have rd: "int (total cs - total cs') = n + extra" using n x c by simp
    from res None b x c rd show ?thesis unfolding N_def[symmetric]
      by (auto split: if_splits)
  qed
qed

text \<open>
  C7, as amended. For a request with \<open>ContentLength = L > 0\<close>, sending the body never
  writes more than \<open>L\<close> bytes to the stream. When the body holds more than \<open>L\<close> bytes
  and every write to the stream succeeds, the call cancels the write side with the
  request-canceled code and fails with the length-mismatch error that carries \<open>L\<close> and
  the length of the body. When the body holds at most \<open>L\<close> bytes, the call never fails
  with that error.
\<close>

theorem sendRequestBody_content_length:
  assumes L: "reqContentLength req > 0"
    and run: "sendRequestBody bufSize fin cs ws (bodyContentLength req) = (res, cs', evs)"
  shows "int (wrote evs) \<le> reqContentLength req \<and>
         (0 < bufSize \<and> allOk ws \<and> reqContentLength req < int (total cs) \<longrightarrow>
            res = Some (ErrContentLength (reqContentLength req) (int (total cs))) \<and>
            StrCancelWrite ErrCodeRequestCanceled \<in> set evs) \<and>
         (int (total cs) \<le> reqContentLength req \<longrightarrow>
            (\<forall>a b. res \<noteq> Some (ErrContentLength a b)))"
proof -
  note r = sendRequestBody_read[OF L run]
  have 1: "int (wrote evs) \<le> reqContentLength req" using r by simp
  have le: "total cs' \<le> total cs" using r by simp
  have 2: "res = Some (ErrContentLength (reqContentLength req) (int (total cs))) \<and>
            StrCancelWrite ErrCodeRequestCanceled \<in> set evs"
    if "0 < bufSize" "allOk ws" "reqContentLength req < int (total cs)"
  proof -
    from r that have "total cs' = 0" by simp
    with r that(3) show ?thesis by simp
  qed
  have 3: "res \<noteq> Some (ErrContentLength a b)" if "int (total cs) \<le> reqContentLength req" for a b
  proof -
    from that le have "int (total cs - total cs') \<le> reqContentLength req" by simp
    with r show ?thesis by blast
  qed
  from 1 2 3 show ?thesis by blast
qed

theorem sendRequestBody_content_length_witness:
  "reqContentLength reqPost > 0 \<and>
   sendRequestBody 2 EOF [[1, 2], [3, 4, 5]] [] (bodyContentLength reqPost) =
     (Some (ErrContentLength 3 5), [],
      [StrWrite [1, 2], StrWrite [3], StrCancelWrite ErrCodeRequestCanceled, BodyClose]) \<and>
   0 < (2::nat) \<and> allOk [] \<and> reqContentLength reqPost < int (total [[1, 2], [3, 4, 5]]) \<and>
   sendRequestBody 2 EOF [[1, 2], [3]] [] (bodyContentLength reqPost) =
     (None, [], [StrWrite [1, 2], StrWrite [3], BodyClose]) \<and>
   int (total [[1, 2], [3]]) \<le> reqContentLength reqPost"
  using sendRequestBody_content_length [of reqPost 2 EOF "[[1, 2], [3, 4, 5]]" "[]"
      "Some (ErrContentLength 3 5)" "[]"
      "[StrWrite [1, 2], StrWrite [3], StrCancelWrite ErrCodeRequestCanceled, BodyClose]"]
    sendRequestBody_content_length [of reqPost 2 EOF "[[1, 2], [3]]" "[]"
      None "[]" "[StrWrite [1, 2], StrWrite [3], BodyClose]"]
  by (simp add: reqPost_def bodyContentLength_def sendRequestBody_def copyBuffer.simps
      discardReadFrom.simps limitedRead_def cancelingRead_def allOk_def total_def)

text \<open>
  The claim C7 itself fails when a write to the stream fails: for a body of 5 bytes with
  \<open>L = 3\<close> and a stream that refuses the second write, line 415 returns the write
  error; the write side is not cancelled and no length-mismatch error is produced.
\<close>

theorem sendRequestBody_write_error_counterexample:
  "reqContentLength reqPost = 3 \<and> total [[1, 2], [3, 4, 5]] = 5 \<and>
   sendRequestBody 2 EOF [[1, 2], [3, 4, 5]] [WOk, WErr 0 (IOErr ''boom'')]
       (bodyContentLength reqPost) =
     (Some (External (IOErr ''boom'')), [[4, 5]], [StrWrite [1, 2], StrWrite [], BodyClose]) \<and>
   External (IOErr ''boom'') \<noteq> ErrContentLength 3 5 \<and>
   StrCancelWrite ErrCodeRequestCanceled \<notin>
     set [StrWrite [1, 2], StrWrite [], BodyClose]"
  by (simp add: reqPost_def bodyContentLength_def sendRequestBody_def copyBuffer.simps
      discardReadFrom.simps limitedRead_def cancelingRead_def total_def)



section \<open>Properties of one request\<close>

lemma receiveResponse_trace:
  "\<exists>evs. trace (snd (receiveResponse e opts gz req p w)) = trace w @ evs \<and>
         (\<forall>ev\<in>set evs. afterHeader ev)"
  by (auto simp: receiveResponse_def emit_def Let_def afterHeader_def
      split: sum.splits frame.splits option.splits)

lemma receiveResponse_frame:
  "reqs (snd (receiveResponse e opts gz req p w)) = reqs w \<and>
   runningCtx (snd (receiveResponse e opts gz req p w)) = runningCtx w \<and>
   nextCtx (snd (receiveResponse e opts gz req p w)) = nextCtx w"
  by (auto simp: receiveResponse_def emit_def Let_def
      split: sum.splits frame.splits option.splits)

lemma doRequest_trace:
  "\<exists>evs. trace (snd (doRequest e opts opt p w)) =
           trace w @ WriteRequestHeader p (requestGzip opts (reqs w ! p)) # evs \<and>
         (\<forall>ev\<in>set evs. afterHeader ev)"
proof (cases "writeRequestHeaderErr e")
  case (Some x)
  then show ?thesis by (simp add: doRequest_def emit_def Let_def)
next
  case None
  define w3 where "w3 = emit (if reqBody (reqs w ! p) then [SendRequestBody p (bodyContentLength (reqs w ! p))] else [])
      (emit (if \<not> reqBody (reqs w ! p) \<and> \<not> DontCloseRequestStream opt then [StrClose] else [])
        (emit [WriteRequestHeader p (requestGzip opts (reqs w ! p))] w))"
  have d: "doRequest e opts opt p w =
      receiveResponse e opts (requestGzip opts (reqs w ! p)) (reqs w ! p) p w3"
    using None by (simp add: doRequest_def Let_def w3_def)
  obtain evs where r: "trace (snd (receiveResponse e opts (requestGzip opts (reqs w ! p)) (reqs w ! p) p w3)) = trace w3 @ evs"
    "\<forall>ev\<in>set evs. afterHeader ev"
    using receiveResponse_trace by blast
  have "\<exists>pre. trace w3 = trace w @ WriteRequestHeader p (requestGzip opts (reqs w ! p)) # pre \<and> (\<forall>ev\<in>set pre. afterHeader ev)"
    by (auto simp: w3_def emit_def afterHeader_def)
  then obtain pre where pre: "trace w3 = trace w @ WriteRequestHeader p (requestGzip opts (reqs w ! p)) # pre"
    "\<forall>ev\<in>set pre. afterHeader ev" by blast
  show ?thesis
    unfolding d using r pre by (intro exI[of _ "pre @ evs"]) auto
qed

lemma doRequest_frame:
  "reqs (snd (doRequest e opts opt p w)) = reqs w \<and>
   runningCtx (snd (doRequest e opts opt p w)) = runningCtx w \<and>
   nextCtx (snd (doRequest e opts opt p w)) = nextCtx w"
  by (auto simp: doRequest_def receiveResponse_frame emit_def Let_def split: option.splits)

lemma headerGet_empty:
  "(headerGet h k = []) = (\<forall>v vs. map_of h k = Some (v # vs) \<longrightarrow> v = [])"
  by (auto simp: headerGet_def split: option.splits list.splits)

text \<open>
  C5, as amended. \<open>doRequest\<close> writes the request header exactly once, first of all,
  and asks the request writer for the automatic "Accept-Encoding: gzip" exactly when
  compression is not disabled, the method is not HEAD, and neither Accept-Encoding nor
  Range has a non-empty first value under its canonical key in the request's header map
  (which is what \<open>Header.Get\<close> reads). A HEAD request never gets the automatic header.
\<close>

theorem automatic_gzip:
  assumes "p < length (reqs w)"
  shows "(WriteRequestHeader p True \<in> set (newEvents w (snd (doRequest e opts opt p w)))) =
           (\<not> DisableCompression opts \<and> Method (reqs w ! p) \<noteq> ''HEAD'' \<and>
            (\<forall>v vs. map_of (reqHeader (reqs w ! p)) ''Accept-Encoding'' = Some (v # vs) \<longrightarrow> v = []) \<and>
            (\<forall>v vs. map_of (reqHeader (reqs w ! p)) ''Range'' = Some (v # vs) \<longrightarrow> v = [])) \<and>
         (\<exists>g. hd (newEvents w (snd (doRequest e opts opt p w))) = WriteRequestHeader p g) \<and>
         (Method (reqs w ! p) = ''HEAD'' \<longrightarrow>
            WriteRequestHeader p True \<notin> set (newEvents w (snd (doRequest e opts opt p w))))"
proof -
  obtain evs where t: "trace (snd (doRequest e opts opt p w)) =
           trace w @ WriteRequestHeader p (requestGzip opts (reqs w ! p)) # evs"
    and a: "\<forall>ev\<in>set evs. afterHeader ev"
    using doRequest_trace by blast
  have n: "newEvents w (snd (doRequest e opts opt p w)) =
      WriteRequestHeader p (requestGzip opts (reqs w ! p)) # evs"
    using t by (rule newEvents_append)
  have "WriteRequestHeader p True \<notin> set evs"
    using a by (auto simp: afterHeader_def)
  then show ?thesis
    unfolding n by (auto simp: requestGzip_def headerGet_empty)
qed

theorem automatic_gzip_witness:
  "3 < length (reqs clientHeaders) \<and> Method (reqs clientHeaders ! 3) = ''HEAD'' \<and>
   WriteRequestHeader 3 True \<notin> set (newEvents clientHeaders (snd (doRequest envOK optsDefault optDefault 3 clientHeaders))) \<and>
   WriteRequestHeader 0 True \<in> set (newEvents clientHeaders (snd (doRequest envOK optsDefault optDefault 0 clientHeaders))) \<and>
   WriteRequestHeader 1 True \<notin> set (newEvents clientHeaders (snd (doRequest envOK optsDefault optDefault 1 clientHeaders))) \<and>
   WriteRequestHeader 2 True \<notin> set (newEvents clientHeaders (snd (doRequest envOK optsDefault optDefault 2 clientHeaders))) \<and>
   WriteRequestHeader 4 True \<in> set (newEvents clientHeaders (snd (doRequest envOK optsDefault optDefault 4 clientHeaders)))"
  using automatic_gzip [of 3 clientHeaders envOK optsDefault optDefault]
    automatic_gzip [of 0 clientHeaders envOK optsDefault optDefault]
    automatic_gzip [of 1 clientHeaders envOK optsDefault optDefault]
    automatic_gzip [of 2 clientHeaders envOK optsDefault optDefault]
    automatic_gzip [of 4 clientHeaders envOK optsDefault optDefault]
  by (simp add: clientHeaders_def reqGet_def reqHead_def reqBr_def reqRange_def reqEmptyAE_def
      optsDefault_def)

text \<open>
  The claim C5 itself fails for a caller who has set Accept-Encoding to the empty string:
  the header is set, and the automatic gzip header is requested all the same.
\<close>

theorem automatic_gzip_counterexample:
  "map_of (reqHeader (reqs clientHeaders ! 4)) ''Accept-Encoding'' = Some ['''']  \<and>
   \<not> DisableCompression optsDefault \<and> Method (reqs clientHeaders ! 4) \<noteq> ''HEAD'' \<and>
   snd (doRequest envOK optsDefault optDefault 4 clientHeaders) = clientEmptyAE \<and>
   WriteRequestHeader 4 True \<in> set (newEvents clientHeaders clientEmptyAE)"
  by (simp add: doRequest_def receiveResponse_def Let_def clientHeaders_def clientEmptyAE_def
      reqGet_def reqHead_def reqBr_def reqRange_def reqEmptyAE_def optsDefault_def optDefault_def
      envOK_def requestGzip_def headerGet_def emit_def newEvents_def
      maxHeaderBytes_def defaultMaxResponseHeaderBytes_def)


text \<open>
  C8. Once the request header is written: a first frame that is not a HEADERS frame fails
  the request with the connection error frame-unexpected; a HEADERS frame longer than
  the maximum header size fails it with the stream error frame-error; a header block that
  is read and does not decode fails it with the connection error general-protocol-error.
  No response is returned in any of the three cases.
\<close>

theorem response_errors:
  assumes "writeRequestHeaderErr e = None"
  shows "(firstFrame e = Inr f \<and> (\<forall>n. f \<noteq> headersFrame n) \<longrightarrow>
            fst (doRequest e opts opt p w) =
              (None, newConnError ErrCodeFrameUnexpected ErrExpectedHeaders)) \<and>
         (firstFrame e = Inr (headersFrame n) \<and> n > maxHeaderBytes opts \<longrightarrow>
            fst (doRequest e opts opt p w) =
              (None, newStreamError ErrCodeFrameError (ErrHeadersTooLarge n (maxHeaderBytes opts)))) \<and>
         (firstFrame e = Inr (headersFrame n) \<and> n \<le> maxHeaderBytes opts \<and>
          readFullErr e = None \<and> decodeFull e = Inl x \<longrightarrow>
            fst (doRequest e opts opt p w) =
              (None, newConnError ErrCodeGeneralProtocolError (External x)))"
  using assms
  by (cases f) (auto simp: doRequest_def receiveResponse_def Let_def)

theorem response_errors_witness:
  "writeRequestHeaderErr (envOK\<lparr>firstFrame := Inr otherFrame\<rparr>) = None \<and>
   fst (doRequest (envOK\<lparr>firstFrame := Inr otherFrame\<rparr>) optsDefault optDefault 0 clientReady) =
     (None, newConnError ErrCodeFrameUnexpected ErrExpectedHeaders) \<and>
   fst (doRequest (envOK\<lparr>firstFrame := Inr (headersFrame 10485761)\<rparr>) optsDefault optDefault 0 clientReady) =
     (None, newStreamError ErrCodeFrameError (ErrHeadersTooLarge 10485761 10485760)) \<and>
   fst (doRequest (envOK\<lparr>decodeFull := Inl (IOErr ''qpack'')\<rparr>) optsDefault optDefault 0 clientReady) =
     (None, newConnError ErrCodeGeneralProtocolError (External (IOErr ''qpack'')))"
  using response_errors [of "envOK\<lparr>firstFrame := Inr otherFrame\<rparr>" otherFrame optsDefault optDefault 0 clientReady 0 EOF]
    response_errors [of "envOK\<lparr>firstFrame := Inr (headersFrame 10485761)\<rparr>" otherFrame optsDefault optDefault 0 clientReady 10485761 EOF]
    response_errors [of "envOK\<lparr>decodeFull := Inl (IOErr ''qpack'')\<rparr>" otherFrame optsDefault optDefault 0 clientReady 10 "IOErr ''qpack''"]
  by (simp add: envOK_def optsDefault_def maxHeaderBytes_def defaultMaxResponseHeaderBytes_def)

lemma buildResponse_except:
  assumes "exceptContentLength req res0"
  shows "ContentLength (buildResponse gz req p res0) =
     (if gz \<and> headerGet (Header res0) ''Content-Encoding'' = ''gzip'' then -1
      else ContentLength res0)"
proof -
  have "exceptContentLength req (res0\<lparr>TLS := True, Request := Some p\<rparr>)"
    using assms by (simp add: exceptContentLength_def)
  then show ?thesis
    by (simp add: buildResponse_def Let_def)
qed

lemma doRequest_Some:
  assumes "doRequest e opts opt p w = ((Some res, rerr), w')"
  shows "\<exists>hfs res0. decodeFull e = Inr hfs \<and> responseFromHeaders e hfs = Inr res0 \<and>
           res = buildResponse (requestGzip opts (reqs w ! p)) (reqs w ! p) p res0"
  using assms
  by (auto simp: doRequest_def receiveResponse_def Let_def
      split: option.splits sum.splits frame.splits if_splits)

text \<open>
  C6, as amended. For a response with a Transfer-Encoding header, a 1xx or 204 status, or
  a 2xx status to a CONNECT request, \<open>doRequest\<close> leaves \<open>ContentLength\<close> as
  \<open>responseFromHeaders\<close> has set it, whatever the Content-Length header says; it is -1
  only when \<open>responseFromHeaders\<close> gave -1 or when the automatic gzip decoding applies.
\<close>

theorem content_length_exceptions:
  assumes "doRequest e opts opt p w = ((Some res, rerr), w')"
    and "decodeFull e = Inr hfs"
    and "responseFromHeaders e hfs = Inr res0"
    and "exceptContentLength (reqs w ! p) res0"
    and "p < length (reqs w)"
  shows "ContentLength res =
     (if requestGzip opts (reqs w ! p) \<and> headerGet (Header res0) ''Content-Encoding'' = ''gzip''
      then -1 else ContentLength res0)"
proof -
  from doRequest_Some[OF assms(1)] assms(2,3)
  have "res = buildResponse (requestGzip opts (reqs w ! p)) (reqs w ! p) p res0" by auto
  with buildResponse_except[OF assms(4)] show ?thesis by simp
qed

text \<open>
  The claim C6 itself fails: for a 204 response with "Content-Length: 5", for which
  \<open>responseFromHeaders\<close> reports the length 5 of the header (the length line 490 compares
  with 0), the returned response has \<open>ContentLength = 5\<close>.
\<close>

lemma doRequest_204:
  "doRequest envOK optsDefault optDefault 0 clientReady = ((Some res204Final, noError), clientDone)"
  by (simp add: doRequest_def receiveResponse_def buildResponse_def Let_def envOK_def
      optsDefault_def optDefault_def clientReady_def clientDone_def reqGet_def res204_def res204Final_def
      requestGzip_def headerGet_def exceptContentLength_def emit_def
      maxHeaderBytes_def defaultMaxResponseHeaderBytes_def)

theorem content_length_204_counterexample:
  "StatusCode res204 = 204 \<and> map_of (Header res204) ''Content-Length'' = Some [''5''] \<and>
   decodeFull envOK = Inr hfs204 \<and> responseFromHeaders envOK hfs204 = Inr res204 \<and>
   doRequest envOK optsDefault optDefault 0 clientReady = ((Some res204Final, noError), clientDone) \<and>
   ContentLength res204Final = 5 \<and> ContentLength res204Final \<noteq> -1"
  using doRequest_204 by (simp add: res204_def res204Final_def envOK_def)

theorem content_length_exceptions_witness:
  "doRequest envOK optsDefault optDefault 0 clientReady = ((Some res204Final, noError), clientDone) \<and>
   decodeFull envOK = Inr hfs204 \<and> responseFromHeaders envOK hfs204 = Inr res204 \<and>
   exceptContentLength (reqs clientReady ! 0) res204 \<and> 0 < length (reqs clientReady) \<and>
   ContentLength res204Final = ContentLength res204"
  using content_length_exceptions [of envOK optsDefault optDefault 0 clientReady res204Final noError clientDone hfs204 res204]
    doRequest_204
  by (simp add: envOK_def res204_def exceptContentLength_def headerGet_def clientReady_def)

section \<open>Properties of a round trip\<close>

lemma afterHeader_late: "afterHeader ev \<Longrightarrow> lateEvent p ev"
  by (auto simp: afterHeader_def lateEvent_def)

lemma doRequest_noerr:
  "rErr (snd (fst (doRequest e opts opt p w))) = None \<Longrightarrow> fst (fst (doRequest e opts opt p w)) \<noteq> None"
  by (auto simp: doRequest_def receiveResponse_def Let_def newStreamError_def newConnError_def
      split: option.splits sum.splits frame.splits if_splits)

lemma requestOnStream_trace:
  "\<exists>evs. trace (snd (requestOnStream e opts opt p sid w)) = trace w @ evs \<and>
         (\<forall>ev\<in>set evs. lateEvent p ev) \<and>
         (\<exists>g. WriteRequestHeader p g \<in> set evs) \<and>
         reqs (snd (requestOnStream e opts opt p sid w)) = reqs w"
proof -
  define w1 where "w1 = w\<lparr>nextCtx := Suc (nextCtx w), runningCtx := mapPut sid (nextCtx w) (runningCtx w)\<rparr>"
  obtain rsp rerr w2 where d: "doRequest e opts opt p w1 = ((rsp, rerr), w2)"
    by (metis prod.exhaust)
  obtain evs where t: "trace w2 = trace w1 @ WriteRequestHeader p (requestGzip opts (reqs w1 ! p)) # evs"
    and a: "\<forall>ev\<in>set evs. afterHeader ev"
    using doRequest_trace[of e opts opt p w1] d by auto
  have r: "reqs w2 = reqs w1" using doRequest_frame[of e opts opt p w1] d by simp
  have w1: "trace w1 = trace w" "reqs w1 = reqs w" by (simp_all add: w1_def)
  have al: "\<And>ev. ev \<in> set evs \<Longrightarrow> ev \<noteq> WaitHandshake \<and> ev \<noteq> Dial \<and> (\<forall>q g. ev \<noteq> WriteRequestHeader q g)"
    using a by (auto simp: afterHeader_def)
  show ?thesis
  proof (cases "rErr rerr")
    case None
    then have "snd (requestOnStream e opts opt p sid w) =
        (emit [Cancel (nextCtx w) None] w2)\<lparr>runningCtx := mapDelete sid (runningCtx w2)\<rparr>"
      using d by (simp add: requestOnStream_def Let_def w1_def)
    then show ?thesis using t r w1 al
      by (auto simp: emit_def lateEvent_def)
  next
    case (Some x)
    define w3 where "w3 = emit ((case streamErr rerr of Some c \<Rightarrow> [StrCancelWrite c] | None \<Rightarrow> []) @
                        (case connErr rerr of Some c \<Rightarrow> [ConnCloseWithError c (Some x)] | None \<Rightarrow> [])) w2"
    from Some have "snd (requestOnStream e opts opt p sid w) =
        (emit [Cancel (nextCtx w) None] w3)\<lparr>runningCtx := mapDelete sid (runningCtx w3)\<rparr>"
      using d by (simp add: requestOnStream_def Let_def w1_def w3_def)
    then show ?thesis using t r w1 al
      by (auto simp: emit_def lateEvent_def w3_def split: option.splits)
  qed
qed

text \<open>
  What lines 362 to 374 do with a failed request: the stream-level code cancels the write
  side, the connection-level code closes the connection with the error as the reason,
  and the deferred function cancels the derived context.
\<close>

lemma requestOnStream_teardown:
  assumes "doRequest e opts opt p
             (w\<lparr>nextCtx := Suc (nextCtx w), runningCtx := mapPut sid (nextCtx w) (runningCtx w)\<rparr>) =
           ((rsp, rerr), w2)"
    and "rErr rerr = Some x"
  shows "trace (snd (requestOnStream e opts opt p sid w)) =
           trace w2 @
           (case streamErr rerr of Some c \<Rightarrow> [StrCancelWrite c] | None \<Rightarrow> []) @
           (case connErr rerr of Some c \<Rightarrow> [ConnCloseWithError c (Some x)] | None \<Rightarrow> []) @
           [Cancel (nextCtx w) None]"
  using assms by (simp add: requestOnStream_def Let_def emit_def)

lemma openRequestStream_trace:
  "\<exists>evs. trace (outWorld (openRequestStream e opts opt p w)) = trace w @ OpenStreamSync # evs \<and>
         (\<forall>ev\<in>set evs. lateEvent p ev) \<and>
         (\<forall>sid. openStream e = Some (Inr sid) \<longrightarrow> (\<exists>g. WriteRequestHeader p g \<in> set evs)) \<and>
         reqs (outWorld (openRequestStream e opts opt p w)) = reqs w"
proof (cases "openStream e")
  case None
  then show ?thesis by (simp add: openRequestStream_def emit_def)
next
  case (Some r)
  show ?thesis
  proof (cases r)
    case (Inl x)
    with Some show ?thesis by (simp add: openRequestStream_def emit_def)
  next
    case (Inr sid)
    obtain evs where "trace (snd (requestOnStream e opts opt p sid (emit [OpenStreamSync] w))) =
         trace (emit [OpenStreamSync] w) @ evs" "\<forall>ev\<in>set evs. lateEvent p ev"
        "\<exists>g. WriteRequestHeader p g \<in> set evs"
        "reqs (snd (requestOnStream e opts opt p sid (emit [OpenStreamSync] w))) = reqs (emit [OpenStreamSync] w)"
      using requestOnStream_trace by blast
    with Some Inr show ?thesis
      by (auto simp: openRequestStream_def emit_def Let_def split: prod.splits)
  qed
qed

lemma checkSettings_trace:
  "\<exists>evs. trace (outWorld (checkSettings e opts opt p w)) = trace w @ evs \<and>
         (\<forall>ev\<in>set evs. lateEvent p ev) \<and>
         (CheckSettings opt = None \<longrightarrow> hd evs = OpenStreamSync \<and>
            (\<forall>sid. openStream e = Some (Inr sid) \<longrightarrow> (\<exists>g. WriteRequestHeader p g \<in> set evs))) \<and>
         reqs (outWorld (checkSettings e opts opt p w)) = reqs w"
proof -
  have o: "\<And>w. \<exists>evs. trace (outWorld (openRequestStream e opts opt p w)) = trace w @ OpenStreamSync # evs \<and>
         (\<forall>ev\<in>set evs. lateEvent p ev) \<and>
         (\<forall>sid. openStream e = Some (Inr sid) \<longrightarrow> (\<exists>g. WriteRequestHeader p g \<in> set evs)) \<and>
         reqs (outWorld (openRequestStream e opts opt p w)) = reqs w"
    by (rule openRequestStream_trace)
  show ?thesis
  proof (cases "CheckSettings opt")
    case None
    from o[of w] obtain evs where "trace (outWorld (openRequestStream e opts opt p w)) = trace w @ OpenStreamSync # evs"
      "\<forall>ev\<in>set evs. lateEvent p ev" "\<forall>sid. openStream e = Some (Inr sid) \<longrightarrow> (\<exists>g. WriteRequestHeader p g \<in> set evs)"
      "reqs (outWorld (openRequestStream e opts opt p w)) = reqs w" by blast
    with None show ?thesis
      by (intro exI[of _ "OpenStreamSync # evs"]) (auto simp: checkSettings_def lateEvent_def)
  next
    case (Some chk)
    from o[of "emit [WaitSettings] w"] obtain evs where
      ev: "trace (outWorld (openRequestStream e opts opt p (emit [WaitSettings] w))) = trace w @ WaitSettings # OpenStreamSync # evs"
      "\<forall>ev\<in>set evs. lateEvent p ev"
      "reqs (outWorld (openRequestStream e opts opt p (emit [WaitSettings] w))) = reqs w"
      by (auto simp: emit_def)
    show ?thesis
    proof (cases "\<exists>st. settingsWait e = Some (ReceivedSettings st) \<and> chk st = None")
      case True
      then have "checkSettings e opts opt p w = openRequestStream e opts opt p (emit [WaitSettings] w)"
        using Some by (auto simp: checkSettings_def Let_def)
      with ev Some show ?thesis
        by (intro exI[of _ "WaitSettings # OpenStreamSync # evs"]) (auto simp: lateEvent_def)
    next
      case False
      then have "outWorld (checkSettings e opts opt p w) = emit [WaitSettings] w"
        using Some by (auto simp: checkSettings_def Let_def split: option.splits stWait.splits)
      with Some show ?thesis
        by (intro exI[of _ "[WaitSettings]"]) (auto simp: emit_def lateEvent_def)
    qed
  qed
qed

lemma outWorld_RoundTripOpt [simp]:
  "outWorld (RoundTripOpt e opts opt p w) = outWorld (roundTripOpt e opts opt p w)"
  by (simp add: RoundTripOpt_def split: outcome.splits prod.splits)

text \<open>
  C3, as amended. After a GOAWAY has been received, a call for the right authority on
  the dialed connection opens no stream and emits nothing; \<open>roundTripOpt\<close> returns the
  goaway error, and \<open>RoundTripOpt\<close> returns it unless the request's context is done, in
  which case it returns the context's error.
\<close>

theorem goaway_fails_fast:
  assumes "p < length (reqs w)" and "authorityMatches e"
    and "dialOnce w" and "handshakeErr w = None" and "receivedGoaway w"
  shows "roundTripOpt e opts opt p w = Returns (None, Some errGoaway) w \<and>
         RoundTripOpt e opts opt p w =
           Returns (None, Some (case reqCtxErr e of None \<Rightarrow> errGoaway | Some x \<Rightarrow> x)) w \<and>
         newEvents w (outWorld (RoundTripOpt e opts opt p w)) = []"
  using assms
  by (auto simp: RoundTripOpt_def roundTripOpt_def newEvents_def split: option.splits)

theorem goaway_fails_fast_witness:
  "0 < length (reqs clientGoaway) \<and> authorityMatches envOK \<and> dialOnce clientGoaway \<and>
   handshakeErr clientGoaway = None \<and> receivedGoaway clientGoaway \<and>
   RoundTripOpt envOK optsDefault optDefault 0 clientGoaway = Returns (None, Some errGoaway) clientGoaway"
  using goaway_fails_fast [of 0 clientGoaway envOK optsDefault optDefault]
  by (simp add: clientGoaway_def clientReady_def envOK_def)

text \<open>
  The claim C3 itself fails for a request whose context is already canceled: the call
  returns the context's error, not the goaway error.
\<close>

theorem goaway_error_counterexample:
  "receivedGoaway clientGoaway \<and>
   RoundTripOpt (envOK\<lparr>reqCtxErr := Some ContextCanceled\<rparr>) optsDefault optDefault 0 clientGoaway =
     Returns (None, Some ContextCanceled) clientGoaway \<and>
   ContextCanceled \<noteq> errGoaway"
  by (simp add: RoundTripOpt_def roundTripOpt_def clientGoaway_def clientReady_def envOK_def)

lemma receiveResponse_hw:
  "receiveResponse (e\<lparr>handshakeWait := hw\<rparr>) opts gz req p = receiveResponse e opts gz req p"
  by (rule ext) (simp add: receiveResponse_def Let_def split: sum.splits frame.splits option.splits)

lemma doRequest_hw:
  "doRequest (e\<lparr>handshakeWait := hw\<rparr>) opts opt p w = doRequest e opts opt p w"
  by (simp add: doRequest_def receiveResponse_hw Let_def split: option.splits)

lemma requestOnStream_hw:
  "requestOnStream (e\<lparr>handshakeWait := hw\<rparr>) opts opt p sid w = requestOnStream e opts opt p sid w"
  by (simp add: requestOnStream_def doRequest_hw Let_def split: prod.splits option.splits)

lemma openRequestStream_hw:
  "openRequestStream (e\<lparr>handshakeWait := hw\<rparr>) opts opt p w = openRequestStream e opts opt p w"
  by (simp add: openRequestStream_def requestOnStream_hw Let_def split: option.splits sum.splits)

lemma checkSettings_hw [simp]:
  "checkSettings (e\<lparr>handshakeWait := hw\<rparr>) opts opt p w = checkSettings e opts opt p w"
  by (simp add: checkSettings_def openRequestStream_hw Let_def split: option.splits stWait.splits)

lemma earlyOrStream_pre:
  assumes "earlyOrStream e opts opt w1 out" "trace w1 = trace w @ pre" "\<forall>ev\<in>set pre. early ev"
  shows "earlyOrStream e opts opt w out"
  using assms unfolding earlyOrStream_def
  by (elim disjE exE conjE) (auto intro!: exI[of _ "pre @ _"])

lemma openRequestStream_early:
  "earlyOrStream e opts opt w (openRequestStream e opts opt p w)"
proof (cases "openStream e")
  case None
  then show ?thesis
    by (auto simp: earlyOrStream_def openRequestStream_def emit_def early_def)
next
  case (Some r)
  then show ?thesis
  proof (cases r)
    case (Inl x)
    with Some show ?thesis
      by (auto simp: earlyOrStream_def openRequestStream_def emit_def early_def)
  next
    case (Inr sid)
    with Some have "\<exists>w'. openRequestStream e opts opt p w =
        Returns (fst (requestOnStream e opts opt p sid (emit [OpenStreamSync] w))) w'"
      by (simp add: openRequestStream_def Let_def split: prod.splits)
    then show ?thesis unfolding earlyOrStream_def by blast
  qed
qed

lemma checkSettings_early:
  "earlyOrStream e opts opt w (checkSettings e opts opt p w)"
proof (cases "CheckSettings opt")
  case None
  then show ?thesis by (simp add: checkSettings_def openRequestStream_early)
next
  case (Some chk)
  have pre: "trace (emit [WaitSettings] w) = trace w @ [WaitSettings]" "\<forall>ev\<in>set [WaitSettings]. early ev"
    by (simp_all add: emit_def early_def)
  show ?thesis
  proof (cases "\<exists>st. settingsWait e = Some (ReceivedSettings st) \<and> chk st = None")
    case True
    then have "checkSettings e opts opt p w = openRequestStream e opts opt p (emit [WaitSettings] w)"
      using Some by (auto simp: checkSettings_def Let_def)
    with earlyOrStream_pre[OF openRequestStream_early pre] show ?thesis by simp
  next
    case False
    then have "outWorld (checkSettings e opts opt p w) = emit [WaitSettings] w"
      using Some by (auto simp: checkSettings_def Let_def split: option.splits stWait.splits)
    then show ?thesis unfolding earlyOrStream_def using pre by auto
  qed
qed

lemma sendOrWait_0RTT:
  "is0RTT (reqs w ! p) \<Longrightarrow> sendOrWait e opts opt p w =
     checkSettings e opts opt (length (reqs w)) (w\<lparr>reqs := reqs w @ [copy0RTT (reqs w ! p)]\<rparr>)"
  by (auto simp: sendOrWait_def Let_def is0RTT_def copy0RTT_def MethodGet0RTT_def MethodHead0RTT_def)

lemma sendOrWait_early:
  "earlyOrStream e opts opt w (sendOrWait e opts opt p w)"
proof (cases "Method (reqs w ! p) = MethodGet0RTT \<or> Method (reqs w ! p) = MethodHead0RTT")
  case True
  then have "sendOrWait e opts opt p w =
      checkSettings e opts opt (length (reqs w)) (w\<lparr>reqs := reqs w @ [copy0RTT (reqs w ! p)]\<rparr>)"
    by (intro sendOrWait_0RTT) (simp add: is0RTT_def)
  moreover have "earlyOrStream e opts opt w
      (checkSettings e opts opt (length (reqs w)) (w\<lparr>reqs := reqs w @ [copy0RTT (reqs w ! p)]\<rparr>))"
    by (rule earlyOrStream_pre[where pre = "[]", OF checkSettings_early]) simp_all
  ultimately show ?thesis by simp
next
  case False
  have pre: "trace (emit [WaitHandshake] w) = trace w @ [WaitHandshake]" "\<forall>ev\<in>set [WaitHandshake]. early ev"
    by (simp_all add: emit_def early_def)
  show ?thesis
  proof (cases "handshakeWait e = Some HandshakeComplete")
    case True
    with False have "sendOrWait e opts opt p w = checkSettings e opts opt p (emit [WaitHandshake] w)"
      by (simp add: sendOrWait_def Let_def)
    with earlyOrStream_pre[OF checkSettings_early pre] show ?thesis by simp
  next
    case f: False
    with False have "outWorld (sendOrWait e opts opt p w) = emit [WaitHandshake] w"
      by (auto simp: sendOrWait_def Let_def split: option.splits hsWait.splits)
    then show ?thesis unfolding earlyOrStream_def using pre by auto
  qed
qed

lemma roundTripOpt_early:
  "earlyOrStream e opts opt w (roundTripOpt e opts opt p w)"
proof -
  define w1 where "w1 = (if dialOnce w then w
                   else (emit [Dial] w)\<lparr>dialOnce := True, handshakeErr := dialResult e\<rparr>)"
  have pre: "\<exists>pre. trace w1 = trace w @ pre \<and> (\<forall>ev\<in>set pre. early ev)"
    by (auto simp: w1_def emit_def early_def)
  then obtain pre where p: "trace w1 = trace w @ pre" "\<forall>ev\<in>set pre. early ev" by blast
  have here: "earlyOrStream e opts opt w (Returns r w)" for r
    unfolding earlyOrStream_def by auto
  have here1: "earlyOrStream e opts opt w (Returns r w1)" for r
    unfolding earlyOrStream_def using p by auto
  have "earlyOrStream e opts opt w (Panics w)" unfolding earlyOrStream_def by auto
  moreover have "earlyOrStream e opts opt w (sendOrWait e opts opt p w1)"
    by (rule earlyOrStream_pre[OF sendOrWait_early p])
  ultimately show ?thesis
    using here here1 by (simp add: roundTripOpt_def Let_def w1_def[symmetric] split: option.splits)
qed

lemma requestOnStream_failed:
  assumes "fst (requestOnStream e opts opt q sid w0) = (None, Some x)" "ctxCause e = Some errGoaway"
  shows "x = errGoaway"
proof -
  define w1 where "w1 = w0\<lparr>nextCtx := Suc (nextCtx w0), runningCtx := mapPut sid (nextCtx w0) (runningCtx w0)\<rparr>"
  obtain rsp rerr w2 where d: "doRequest e opts opt q w1 = ((rsp, rerr), w2)"
    by (metis prod.exhaust)
  show ?thesis
  proof (cases "rErr rerr")
    case None
    with doRequest_noerr[of e opts opt q w1] d have "rsp \<noteq> None" by simp
    with None d assms(1) show ?thesis
      by (simp add: requestOnStream_def Let_def w1_def[symmetric])
  next
    case (Some y)
    with d assms show ?thesis
      by (simp add: requestOnStream_def Let_def w1_def[symmetric])
  qed
qed

lemma afterDial_hw [simp]: "afterDial (e\<lparr>handshakeWait := hw\<rparr>) w = afterDial e w"
  by (simp add: afterDial_def)










text \<open>
  C9, as amended. Whenever a call fails and the caller's context is done, the returned
  error is the caller's context error, also when the goaway cause is recorded on the
  derived context. When the caller's context is not done, a request that has failed on
  its stream (no response, and the deferred \<open>cancel(nil)\<close> has run) with the goaway
  cause recorded returns the goaway error.
\<close>

theorem returned_error_class:
  assumes "RoundTripOpt e opts opt p w = Returns (rsp, Some x) w'"
  shows "(\<forall>y. reqCtxErr e = Some y \<longrightarrow> x = y) \<and>
         (reqCtxErr e = None \<and> ctxCause e = Some errGoaway \<and> rsp = None \<and>
          (\<exists>h. Cancel h None \<in> set (newEvents w w')) \<longrightarrow> x = errGoaway)"
proof -
  obtain er where r: "roundTripOpt e opts opt p w = Returns (rsp, er) w'"
    and x: "Some x = (if er \<noteq> None \<and> reqCtxErr e \<noteq> None then reqCtxErr e else er)"
    using assms by (auto simp: RoundTripOpt_def split: outcome.splits prod.splits)
  have 1: "\<forall>y. reqCtxErr e = Some y \<longrightarrow> x = y"
    using x by (auto split: if_splits)
  have 2: "x = errGoaway"
    if a: "reqCtxErr e = None" "ctxCause e = Some errGoaway" "rsp = None"
      "\<exists>h. Cancel h None \<in> set (newEvents w w')"
  proof -
    from x a(1) have er: "er = Some x" by simp
    from roundTripOpt_early[of e opts opt w p] r
    have "(\<exists>evs. trace w' = trace w @ evs \<and> (\<forall>ev\<in>set evs. early ev)) \<or>
          (\<exists>q sid w0. (rsp, er) = fst (requestOnStream e opts opt q sid w0))"
      by (auto simp: earlyOrStream_def)
    then show ?thesis
    proof
      assume "\<exists>evs. trace w' = trace w @ evs \<and> (\<forall>ev\<in>set evs. early ev)"
      then obtain evs where "newEvents w w' = evs" "\<forall>ev\<in>set evs. early ev"
        by (auto simp: newEvents_def)
      with a(4) show ?thesis by (auto simp: early_def)
    next
      assume "\<exists>q sid w0. (rsp, er) = fst (requestOnStream e opts opt q sid w0)"
      then obtain q sid w0 where "fst (requestOnStream e opts opt q sid w0) = (None, Some x)"
        using a(3) er by auto
      from requestOnStream_failed[OF this a(2)] show ?thesis .
    qed
  qed
  from 1 2 show ?thesis by blast
qed

lemma roundTripOpt_envGoaway:
  "roundTripOpt envGoaway optsDefault optDefault 0 clientReady =
     Returns (None, Some errGoaway) clientFailed"
  by (simp add: roundTripOpt_def sendOrWait_def checkSettings_def openRequestStream_def
      requestOnStream_def doRequest_def receiveResponse_def Let_def envGoaway_def envOK_def
      optsDefault_def optDefault_def clientReady_def clientFailed_def reqGet_def
      MethodGet0RTT_def MethodHead0RTT_def requestGzip_def headerGet_def emit_def
      newStreamError_def mapPut_def mapDelete_def)

lemma roundTripOpt_envRace:
  "roundTripOpt envRace optsDefault optDefault 0 clientReady =
     Returns (None, Some errGoaway) clientFailed"
  by (simp add: roundTripOpt_def sendOrWait_def checkSettings_def openRequestStream_def
      requestOnStream_def doRequest_def receiveResponse_def Let_def envRace_def envGoaway_def envOK_def
      optsDefault_def optDefault_def clientReady_def clientFailed_def reqGet_def
      MethodGet0RTT_def MethodHead0RTT_def requestGzip_def headerGet_def emit_def
      newStreamError_def mapPut_def mapDelete_def)

text \<open>
  The claim C9 itself fails when the caller's context is done as well: the goaway cause
  is recorded and \<open>roundTripOpt\<close> returns the goaway error, but \<open>RoundTripOpt\<close>
  replaces it by the context's error.
\<close>

theorem goaway_cause_counterexample:
  "ctxCause envRace = Some errGoaway \<and>
   roundTripOpt envRace optsDefault optDefault 0 clientReady =
     Returns (None, Some errGoaway) clientFailed \<and>
   RoundTripOpt envRace optsDefault optDefault 0 clientReady =
     Returns (None, Some ContextCanceled) clientFailed \<and>
   ContextCanceled \<noteq> errGoaway"
  using roundTripOpt_envRace
  by (simp add: RoundTripOpt_def envRace_def envGoaway_def)

theorem returned_error_class_witness:
  "RoundTripOpt envGoaway optsDefault optDefault 0 clientReady =
     Returns (None, Some errGoaway) clientFailed \<and>
   reqCtxErr envGoaway = None \<and> ctxCause envGoaway = Some errGoaway \<and>
   Cancel 0 None \<in> set (newEvents clientReady clientFailed) \<and>
   RoundTripOpt envRace optsDefault optDefault 0 clientReady =
     Returns (None, Some ContextCanceled) clientFailed \<and>
   reqCtxErr envRace = Some ContextCanceled"
  using returned_error_class [of envGoaway optsDefault optDefault 0 clientReady None errGoaway clientFailed]
    returned_error_class [of envRace optsDefault optDefault 0 clientReady None ContextCanceled clientFailed]
    roundTripOpt_envGoaway roundTripOpt_envRace
  by (simp add: RoundTripOpt_def envRace_def envGoaway_def envOK_def newEvents_def
      clientReady_def clientFailed_def)

lemma roundTripOpt_0RTT_world:
  assumes "p < length (reqs w)" "is0RTT (reqs w ! p)"
  shows "\<exists>evs. trace (outWorld (roundTripOpt e opts opt p w)) = trace w @ evs \<and>
           (\<forall>q g. WriteRequestHeader q g \<in> set evs \<longrightarrow>
               q = length (reqs w) \<and>
               reqs (outWorld (roundTripOpt e opts opt p w)) = reqs w @ [copy0RTT (reqs w ! p)]) \<and>
           (reqs (outWorld (roundTripOpt e opts opt p w)) = reqs w \<or>
            reqs (outWorld (roundTripOpt e opts opt p w)) = reqs w @ [copy0RTT (reqs w ! p)])"
proof -
  define w1 where "w1 = (if dialOnce w then w
                   else (emit [Dial] w)\<lparr>dialOnce := True, handshakeErr := dialResult e\<rparr>)"
  have "\<exists>pre. trace w1 = trace w @ pre \<and> set pre \<subseteq> {Dial} \<and> reqs w1 = reqs w"
    by (cases "dialOnce w") (simp_all add: w1_def emit_def)
  then obtain pre where pre: "trace w1 = trace w @ pre" "set pre \<subseteq> {Dial}" "reqs w1 = reqs w"
    by blast
  let ?w = "w1\<lparr>reqs := reqs w1 @ [copy0RTT (reqs w1 ! p)]\<rparr>"
  have s: "sendOrWait e opts opt p w1 = checkSettings e opts opt (length (reqs w1)) ?w"
    using assms(2) pre(3) by (intro sendOrWait_0RTT) simp
  obtain evs where t: "trace (outWorld (checkSettings e opts opt (length (reqs w1)) ?w)) = trace ?w @ evs"
    and l: "\<forall>ev\<in>set evs. lateEvent (length (reqs w1)) ev"
    and r: "reqs (outWorld (checkSettings e opts opt (length (reqs w1)) ?w)) = reqs ?w"
    using checkSettings_trace[of e opts opt "length (reqs w1)" ?w] by (elim exE conjE) auto
  have early: "\<exists>evs. trace w0 = trace w @ evs \<and> (\<forall>q g. WriteRequestHeader q g \<notin> set evs)"
    if "w0 = w \<or> w0 = w1" for w0
    using that pre by auto
  have eq: "roundTripOpt e opts opt p w =
      (if \<not> authorityMatches e then Returns (None, Some ErrWrongClient) w
       else case handshakeErr w1 of
              Some x \<Rightarrow> Returns (None, Some x) w1
            | None \<Rightarrow> if receivedGoaway w1 then Returns (None, Some errGoaway) w1
                      else sendOrWait e opts opt p w1)"
    using assms(1) unfolding roundTripOpt_def Let_def w1_def by simp
  have "outWorld (roundTripOpt e opts opt p w) = w \<or>
        outWorld (roundTripOpt e opts opt p w) = w1 \<or>
        roundTripOpt e opts opt p w = sendOrWait e opts opt p w1"
    unfolding eq by (simp split: option.splits)
  then consider (a) "outWorld (roundTripOpt e opts opt p w) = w"
    | (b) "outWorld (roundTripOpt e opts opt p w) = w1"
    | (c) "roundTripOpt e opts opt p w = sendOrWait e opts opt p w1"
    by blast
  then show ?thesis
  proof cases
    case a
    with early[of w] show ?thesis by auto
  next
    case b
    with early[of w1] pre(3) show ?thesis by auto
  next
    case c
    have "trace (outWorld (roundTripOpt e opts opt p w)) = trace w @ pre @ evs"
      using c s t pre by simp
    moreover have "reqs (outWorld (roundTripOpt e opts opt p w)) = reqs w @ [copy0RTT (reqs w ! p)]"
      using c s r pre by simp
    moreover have "\<forall>q g. WriteRequestHeader q g \<in> set (pre @ evs) \<longrightarrow> q = length (reqs w)"
      using l pre by (auto simp: lateEvent_def)
    ultimately show ?thesis by blast
  qed
qed

text \<open>
  C10. A call with a GET_0RTT or HEAD_0RTT request leaves every request object that
  existed before the call unchanged, the caller's own among them. The only request whose
  header it writes is a new object: the copy of the caller's request with the method GET
  or HEAD.
\<close>

theorem zero_rtt_copy:
  assumes "p < length (reqs w)"
    and "Method (reqs w ! p) = MethodGet0RTT \<or> Method (reqs w ! p) = MethodHead0RTT"
  shows "take (length (reqs w)) (reqs (outWorld (RoundTripOpt e opts opt p w))) = reqs w \<and>
         reqs (outWorld (RoundTripOpt e opts opt p w)) ! p = reqs w ! p \<and>
         (\<forall>q g. WriteRequestHeader q g \<in> set (newEvents w (outWorld (RoundTripOpt e opts opt p w))) \<longrightarrow>
            q \<noteq> p \<and>
            reqs (outWorld (RoundTripOpt e opts opt p w)) ! q =
              (reqs w ! p)\<lparr>Method := (if Method (reqs w ! p) = MethodGet0RTT then ''GET'' else ''HEAD'')\<rparr>)"
proof -
  from assms(2) have z: "is0RTT (reqs w ! p)" by (simp add: is0RTT_def)
  let ?w' = "outWorld (roundTripOpt e opts opt p w)"
  obtain evs where t: "trace ?w' = trace w @ evs"
    and h: "\<forall>q g. WriteRequestHeader q g \<in> set evs \<longrightarrow>
               q = length (reqs w) \<and> reqs ?w' = reqs w @ [copy0RTT (reqs w ! p)]"
    and r: "reqs ?w' = reqs w \<or> reqs ?w' = reqs w @ [copy0RTT (reqs w ! p)]"
    using roundTripOpt_0RTT_world[OF assms(1) z, of e opts opt] by (elim exE conjE) auto
  have n: "newEvents w ?w' = evs" using t by (simp add: newEvents_def)
  have 1: "take (length (reqs w)) (reqs ?w') = reqs w" using r by auto
  have 2: "reqs ?w' ! p = reqs w ! p" using r assms(1) by (auto simp: nth_append)
  have 3: "\<forall>q g. WriteRequestHeader q g \<in> set evs \<longrightarrow>
            q \<noteq> p \<and> reqs ?w' ! q = copy0RTT (reqs w ! p)"
    using h assms(1) by auto
  show ?thesis
    using 1 2 3 unfolding outWorld_RoundTripOpt n copy0RTT_def by simp
qed

theorem zero_rtt_copy_witness:
  "1 < length (reqs clientReady) \<and> Method (reqs clientReady ! 1) = MethodGet0RTT \<and>
   reqs (outWorld (RoundTripOpt envOK optsDefault optDefault 1 clientReady)) ! 1 = reqGet0RTT \<and>
   WriteRequestHeader 3 True \<in> set (newEvents clientReady (outWorld (RoundTripOpt envOK optsDefault optDefault 1 clientReady))) \<and>
   reqs (outWorld (RoundTripOpt envOK optsDefault optDefault 1 clientReady)) ! 3 = reqGet"
  using zero_rtt_copy [of 1 clientReady envOK optsDefault optDefault]
  by (simp add: RoundTripOpt_def roundTripOpt_def sendOrWait_def checkSettings_def openRequestStream_def
      requestOnStream_def doRequest_def receiveResponse_def Let_def envOK_def
      optsDefault_def optDefault_def clientReady_def reqGet_def reqGet0RTT_def
      MethodGet0RTT_def MethodHead0RTT_def requestGzip_def headerGet_def emit_def newEvents_def
      maxHeaderBytes_def defaultMaxResponseHeaderBytes_def buildResponse_def res204_def exceptContentLength_def
      noError_def mapPut_def mapDelete_def)

end
